theory Spec2Isabelle
  imports Main "HOL-Library.Sublist"
begin

section \<open>Data model\<close>

text \<open>
  A shallow embedding of the Jules monitor, of the Overseer agent's \<^verbatim>\<open>checkOnJules\<close>
  and of the interactive \<^verbatim>\<open>SmartPoller\<close>. The monitor, \<^verbatim>\<open>jules-monitor.ts\<close>, comes in
  two variants, and both have \<^verbatim>\<open>syncExternalSessions\<close>, \<^verbatim>\<open>runActiveSessionSync\<close>,
  \<^verbatim>\<open>syncActivitiesForSession\<close> and \<^verbatim>\<open>run\<close>.

  \<^item> \<open>Via_tools\<close> is \<^verbatim>\<open>services/jules-monitor.ts\<close>, the variant the worker's cron handler
    runs. It reaches the remote service through the tool classes of
    \<^verbatim>\<open>tools/jules/index_base_tool.ts\<close>, and its \<^verbatim>\<open>run\<close> ends with
    \<^verbatim>\<open>checkForStuckSessions\<close>, which hands every selected session to \<^verbatim>\<open>checkOnJules\<close>.
  \<^item> \<open>Via_client\<close> is the other variant. It calls the \<^verbatim>\<open>JulesClient\<close> itself; its \<^verbatim>\<open>run\<close>
    is the first two phases alone. It holds the private dispatchers
    \<^verbatim>\<open>handlePlanApproval\<close> and \<^verbatim>\<open>handleUserFeedback\<close>, the latter with the loop-prevention
    query; no method of the class calls them.

  Strings are byte lists; a thrown exception is a value of type \<open>err\<close> (the text of
  the error).
\<close>

type_synonym err = string

datatype variant = Via_client | Via_tools

text \<open>The enum \<^verbatim>\<open>SessionState\<close> of \<^verbatim>\<open>tools/jules/types.ts\<close> and its string values.\<close>

datatype SessionState =
    STATE_UNSPECIFIED
  | QUEUED
  | PLANNING
  | AWAITING_PLAN_APPROVAL
  | AWAITING_USER_FEEDBACK
  | IN_PROGRESS
  | PAUSED
  | FAILED
  | COMPLETED

fun state_value :: "SessionState \<Rightarrow> string" where
  "state_value STATE_UNSPECIFIED = ''STATE_UNSPECIFIED''"
| "state_value QUEUED = ''QUEUED''"
| "state_value PLANNING = ''PLANNING''"
| "state_value AWAITING_PLAN_APPROVAL = ''AWAITING_PLAN_APPROVAL''"
| "state_value AWAITING_USER_FEEDBACK = ''AWAITING_USER_FEEDBACK''"
| "state_value IN_PROGRESS = ''IN_PROGRESS''"
| "state_value PAUSED = ''PAUSED''"
| "state_value FAILED = ''FAILED''"
| "state_value COMPLETED = ''COMPLETED''"

text \<open>
  A JavaScript \<^verbatim>\<open>Date\<close>: \<^verbatim>\<open>new Date(text)\<close> is kept as the text it was built from,
  \<^verbatim>\<open>new Date()\<close> as the clock reading (milliseconds).
\<close>

datatype Date = Date_of string | Date_at nat

text \<open>
  What the remote service returns. Of an activity the monitor reads \<^verbatim>\<open>name\<close>,
  \<^verbatim>\<open>description\<close>, \<^verbatim>\<open>createTime\<close> and \<^verbatim>\<open>agentMessaged.agentMessage\<close>; the
  required fields \<^verbatim>\<open>id\<close> and \<^verbatim>\<open>originator\<close> are kept because the whole payload is
  serialised into the mirror's metadata. \<open>agentMessaged = Some m\<close> is an activity whose
  \<^verbatim>\<open>agentMessaged\<close> object is present with message \<open>m\<close>.
\<close>

record Session =
  sess_id :: string
  sess_title :: "string option"
  sess_state :: string
  sess_updateTime :: string

record Activity =
  act_name :: string
  act_id :: string
  act_originator :: string
  act_description :: string
  act_createTime :: string
  agentMessaged :: "string option"

text \<open>The three tables of the store (the Prisma models the monitor writes).\<close>

record JulesSession =
  js_id :: string
  js_title :: "string option"
  js_status :: string
  js_origin :: string
  originalPrompt :: string
  sourceName :: "string option"
  enhancedContext :: "string option"
  updatedAt :: Date
  completedAt :: "Date option"

record ActivityLog =
  al_sessionId :: "string option"
  agent :: string
  action :: string
  result :: string
  success :: bool
  al_timestamp :: Date
  metadata :: "string option"

record JulesInteraction =
  ji_sessionId :: string
  ji_type :: string
  julesMessage :: "string option"
  agentResponse :: "string option"
  isSuccess :: bool
  errorMessage :: "string option"

record EnhancedContext =
  bindings :: "string list"
  techStack :: "string list"
  constraints :: "string list"
  documentation :: "string list"

text \<open>Calls that reach the remote service and change it, in the order they were made.\<close>

datatype remote_call = SendMessage string string | ApprovePlan string

record state =
  julesSession :: "JulesSession list"
  activityLog :: "ActivityLog list"
  julesInteraction :: "JulesInteraction list"
  outbox :: "remote_call list"
  DASHBOARD_LAST_SYNC :: "nat option"

definition empty_state :: state where
  "empty_state = \<lparr>julesSession = [], activityLog = [], julesInteraction = [], outbox = [],
     DASHBOARD_LAST_SYNC = None\<rparr>"

text \<open>
  The store calls the monitor makes; \<open>db_fault\<close> of the environment says which of them
  throw. The environment also answers every remote call (\<open>Inl\<close> is a thrown error) and
  gives the clock. \<^verbatim>\<open>client.listActivities(sessionId, params)\<close> is called at three places
  of a pass, and the remote service may answer each of them differently: the answer
  depends on the place of the call, on the session and on the page size (\<open>None\<close>: no
  \<^verbatim>\<open>params\<close>). \<open>overseer\<close> is the reply of the Overseer durable object (\<open>None\<close>:
  binding absent, fetch failed or response not ok), \<open>json_parse_context\<close> is
  \<^verbatim>\<open>JSON.parse\<close> on the stored context blob, \<open>docs_search\<close> is the content of the first
  hit of the documentation search tool.
\<close>

datatype call_site = Status_fetch | Mirror | Dispatch

datatype db_call =
    FindUniqueSession string
  | CreateSession string
  | FindManyActive
  | UpdateSession string
  | FindFirstActivity string string
  | CreateActivity string string
  | FindManyStuck
  | FindFirstInteraction string string
  | CreateInteraction string string

record env =
  now :: nat
  listSessions :: "nat \<Rightarrow> err + Session list option"
  getSession :: "string \<Rightarrow> err + Session"
  listActivities :: "call_site \<Rightarrow> string \<Rightarrow> nat option \<Rightarrow> err + Activity list option"
  sendMessage :: "string \<Rightarrow> string \<Rightarrow> err option"
  approvePlan :: "string \<Rightarrow> err option"
  db_fault :: "db_call \<Rightarrow> err option"
  KV :: bool
  kv_put_fault :: "err option"
  overseer :: "string \<Rightarrow> EnhancedContext \<Rightarrow> string option"
  json_parse_context :: "string \<Rightarrow> err + EnhancedContext"
  docs_search :: "string \<Rightarrow> err + string option"

text \<open>\<^verbatim>\<open>response.sessions || []\<close> and \<^verbatim>\<open>response.activities || []\<close>.\<close>

definition or_empty :: "'a list option \<Rightarrow> 'a list" where
  "or_empty r = (case r of None \<Rightarrow> [] | Some xs \<Rightarrow> xs)"

section \<open>Session discovery\<close>

definition ORIGIN_INTERNAL :: string where "ORIGIN_INTERNAL = ''INTERNAL''"
definition ORIGIN_EXTERNAL :: string where "ORIGIN_EXTERNAL = ''EXTERNAL''"

text \<open>\<^verbatim>\<open>prisma.julesSession.findUnique({ where: { id } })\<close>.\<close>

definition findUnique_session :: "state \<Rightarrow> string \<Rightarrow> JulesSession option" where
  "findUnique_session st i = find (\<lambda>r. js_id r = i) (julesSession st)"

text \<open>The record \<^verbatim>\<open>syncExternalSessions\<close> creates; fields it leaves out are null.\<close>

definition adopted :: "Session \<Rightarrow> JulesSession" where
  "adopted x = \<lparr>js_id = sess_id x, js_title = sess_title x, js_status = sess_state x,
     js_origin = ORIGIN_EXTERNAL, originalPrompt = ''External Session'', sourceName = None,
     enhancedContext = None, updatedAt = Date_of (sess_updateTime x), completedAt = None\<rparr>"

text \<open>
  The body of the \<^verbatim>\<open>for\<close> loop of \<^verbatim>\<open>syncExternalSessions\<close>. The counter is declared
  outside the \<^verbatim>\<open>try\<close>, so it survives an exception: the result is the exception (if
  any), the counter and the store.
\<close>

fun adopt_loop :: "env \<Rightarrow> Session list \<Rightarrow> nat \<Rightarrow> state \<Rightarrow> err option \<times> nat \<times> state" where
  "adopt_loop e [] n st = (None, n, st)"
| "adopt_loop e (x # xs) n st =
     (case db_fault e (FindUniqueSession (sess_id x)) of
        Some er \<Rightarrow> (Some er, n, st)
      | None \<Rightarrow>
          (case findUnique_session st (sess_id x) of
             Some existing \<Rightarrow> adopt_loop e xs n st
           | None \<Rightarrow>
               (case db_fault e (CreateSession (sess_id x)) of
                  Some er \<Rightarrow> (Some er, n, st)
                | None \<Rightarrow>
                    adopt_loop e xs (Suc n)
                      (st\<lparr>julesSession := julesSession st @ [adopted x]\<rparr>))))"

definition syncExternalSessions :: "env \<Rightarrow> state \<Rightarrow> nat \<times> state" where
  "syncExternalSessions e st =
     (case listSessions e 20 of
        Inl er \<Rightarrow> (0, st)
      | Inr response \<Rightarrow>
          (case adopt_loop e (or_empty response) 0 st of (caught, n, st') \<Rightarrow> (n, st')))"

section \<open>Strings and JSON\<close>

text \<open>\<^verbatim>\<open>text.split(sep)\<close> for a one-character separator: never the empty array.\<close>

fun split :: "char \<Rightarrow> string \<Rightarrow> string list" where
  "split sep [] = [[]]"
| "split sep (c # cs) =
     (if c = sep then [] # split sep cs
      else (case split sep cs of [] \<Rightarrow> [[c]] | w # ws \<Rightarrow> (c # w) # ws))"

text \<open>\<^verbatim>\<open>act.name.split('/').pop()\<close>: \<open>None\<close> stands for \<^verbatim>\<open>undefined\<close> (the empty array).\<close>

definition pop :: "'a list \<Rightarrow> 'a option" where
  "pop xs = (case rev xs of [] \<Rightarrow> None | x # rest \<Rightarrow> Some x)"

text \<open>
  \<^verbatim>\<open>haystack.includes(needle)\<close>; also the store's string filter \<^verbatim>\<open>contains\<close>, taken
  as plain containment: the needle, character by character, somewhere inside the column.
\<close>

fun str_includes :: "string \<Rightarrow> string \<Rightarrow> bool" where
  "str_includes [] needle = (needle = [])"
| "str_includes (c # cs) needle = (prefix needle (c # cs) \<or> str_includes cs needle)"

definition dquote :: char where "dquote = CHR 0x22"
definition bslash :: char where "bslash = CHR 0x5C"

definition hex_digit :: "nat \<Rightarrow> char" where
  "hex_digit n = ''0123456789abcdef'' ! (n mod 16)"

text \<open>
  \<^verbatim>\<open>JSON.stringify\<close> on a string: the quote, the backslash and the control characters
  are escaped, every other character stands for itself.
\<close>

definition json_plain :: "char \<Rightarrow> bool" where
  "json_plain c = (c \<noteq> dquote \<and> c \<noteq> bslash \<and> 32 \<le> (of_char c :: nat))"

definition json_escape_char :: "char \<Rightarrow> string" where
  "json_escape_char c =
     (if json_plain c then [c]
      else bslash #
        (if c = dquote then [dquote]
         else if c = bslash then [bslash]
         else if c = CHR 0x08 then ''b''
         else if c = CHR 0x0C then ''f''
         else if c = CHR 0x0A then ''n''
         else if c = CHR 0x0D then ''r''
         else if c = CHR 0x09 then ''t''
         else ''u00'' @ [hex_digit (of_char c div 16), hex_digit (of_char c)]))"

definition json_string :: "string \<Rightarrow> string" where
  "json_string s = dquote # concat (map json_escape_char s) @ [dquote]"

definition json_key :: "string \<Rightarrow> string" where
  "json_key k = json_string k @ '':''"

text \<open>\<^verbatim>\<open>JSON.stringify(act)\<close>: the payload's fields in the order of the interface.\<close>

definition json_activity :: "Activity \<Rightarrow> string" where
  "json_activity a =
     ''{'' @ json_key ''name'' @ json_string (act_name a) @
     '','' @ json_key ''id'' @ json_string (act_id a) @
     '','' @ json_key ''originator'' @ json_string (act_originator a) @
     '','' @ json_key ''description'' @ json_string (act_description a) @
     '','' @ json_key ''createTime'' @ json_string (act_createTime a) @
     (case agentMessaged a of
        None \<Rightarrow> []
      | Some m \<Rightarrow>
          '','' @ json_key ''agentMessaged'' @
          ''{'' @ json_key ''agentMessage'' @ json_string m @ ''}'') @
     ''}''"

text \<open>
  \<^verbatim>\<open>JSON.stringify({ remote_id, full_resource, type: 'JULES_SYNC', original_act })\<close>.
\<close>

definition mirror_metadata :: "string \<Rightarrow> Activity \<Rightarrow> string" where
  "mirror_metadata remoteId a =
     ''{'' @ json_key ''remote_id'' @ json_string remoteId @
     '','' @ json_key ''full_resource'' @ json_string (act_name a) @
     '','' @ json_key ''type'' @ json_string ''JULES_SYNC'' @
     '','' @ json_key ''original_act'' @ json_activity a @
     ''}''"

section \<open>Activity mirror\<close>

text \<open>
  \<^verbatim>\<open>prisma.activityLog.findFirst({ where: { sessionId, metadata: { contains: remoteId } } })\<close>.
  The filter is taken as plain containment: a row whose metadata holds the id as it
  stands matches. (The SQLite store behind the client evaluates \<^verbatim>\<open>contains\<close> with
  \<^verbatim>\<open>LIKE\<close>, which matches all these rows and, for ids with ASCII letters, \<^verbatim>\<open>_\<close> or
  \<^verbatim>\<open>%\<close>, some more.)
\<close>

definition metadata_contains :: "ActivityLog \<Rightarrow> string \<Rightarrow> bool" where
  "metadata_contains r needle =
     (case metadata r of None \<Rightarrow> False | Some m \<Rightarrow> str_includes m needle)"

definition findFirst_activity :: "state \<Rightarrow> string \<Rightarrow> string \<Rightarrow> ActivityLog option" where
  "findFirst_activity st sessionId remoteId =
     find (\<lambda>r. al_sessionId r = Some sessionId \<and> metadata_contains r remoteId) (activityLog st)"

definition mirrored :: "string \<Rightarrow> string \<Rightarrow> Activity \<Rightarrow> ActivityLog" where
  "mirrored sessionId remoteId a = \<lparr>al_sessionId = Some sessionId, agent = ''Jules'',
     action = ''REMOTE_UPDATE'', result = act_description a, success = True,
     al_timestamp = Date_of (act_createTime a),
     metadata = Some (mirror_metadata remoteId a)\<rparr>"

text \<open>
  \<^verbatim>\<open>const remoteId = act.name.split('/').pop()\<close>. \<open>split\<close> never returns the empty
  array, so the id is never \<^verbatim>\<open>undefined\<close>; that branch is the empty id here.
\<close>

definition remoteId :: "Activity \<Rightarrow> string" where
  "remoteId a = (case pop (split (CHR ''/'') (act_name a)) of None \<Rightarrow> [] | Some i \<Rightarrow> i)"

text \<open>
  The \<^verbatim>\<open>for\<close> loop of \<^verbatim>\<open>syncActivitiesForSession\<close>. An exception leaves the loop and
  is swallowed by the enclosing \<^verbatim>\<open>catch\<close>, so the result is the store as it stands.
\<close>

fun mirror_loop :: "env \<Rightarrow> string \<Rightarrow> Activity list \<Rightarrow> state \<Rightarrow> state" where
  "mirror_loop e sessionId [] st = st"
| "mirror_loop e sessionId (a # as) st =
     (case db_fault e (FindFirstActivity sessionId (remoteId a)) of
        Some er \<Rightarrow> st
      | None \<Rightarrow>
          (case findFirst_activity st sessionId (remoteId a) of
             Some existing \<Rightarrow> mirror_loop e sessionId as st
           | None \<Rightarrow>
               (case db_fault e (CreateActivity sessionId (remoteId a)) of
                  Some er \<Rightarrow> st
                | None \<Rightarrow>
                    mirror_loop e sessionId as
                      (st\<lparr>activityLog := activityLog st @ [mirrored sessionId (remoteId a) a]\<rparr>))))"

text \<open>
  \<^verbatim>\<open>JulesGetActivityTool.execute(args)\<close> is \<^verbatim>\<open>client.listActivities(args.sessionId)\<close>: it
  passes the session id alone, whatever else \<open>args\<close> holds.
\<close>

definition JulesGetActivityTool_execute ::
  "env \<Rightarrow> call_site \<Rightarrow> string \<Rightarrow> err + Activity list option" where
  "JulesGetActivityTool_execute e site sessionId = listActivities e site sessionId None"

text \<open>
  \<^verbatim>\<open>syncActivitiesForSession\<close>. The page comes from
  \<^verbatim>\<open>julesClient.listActivities(sessionId, { pageSize: 10 })\<close> in one variant and from
  \<^verbatim>\<open>julesGetActivityTool.execute({ sessionId, pageSize: 10 })\<close> in the other, where the
  page size is dropped.
\<close>

definition syncActivitiesForSession :: "variant \<Rightarrow> env \<Rightarrow> string \<Rightarrow> state \<Rightarrow> state" where
  "syncActivitiesForSession v e sessionId st =
     (case (case v of
              Via_client \<Rightarrow> listActivities e Mirror sessionId (Some 10)
            | Via_tools \<Rightarrow> JulesGetActivityTool_execute e Mirror sessionId) of
        Inl er \<Rightarrow> st
      | Inr response \<Rightarrow> mirror_loop e sessionId (or_empty response) st)"

section \<open>Active session sync\<close>

definition is_closed :: "string \<Rightarrow> bool" where
  "is_closed s = (s = ''COMPLETED'' \<or> s = ''FAILED'')"

text \<open>
  \<^verbatim>\<open>prisma.julesSession.update({ where: { id }, data: { status, completedAt } })\<close>. A
  \<^verbatim>\<open>status\<close> that is \<^verbatim>\<open>undefined\<close> (\<open>None\<close>) leaves the column as it is; \<^verbatim>\<open>completedAt\<close> is
  written in every case, \<^verbatim>\<open>null\<close> included.
\<close>

definition update_session :: "string \<Rightarrow> string option \<Rightarrow> Date option \<Rightarrow> state \<Rightarrow> state" where
  "update_session i s c st =
     st\<lparr>julesSession :=
       map (\<lambda>r. if js_id r = i
                then r\<lparr>js_status := (case s of None \<Rightarrow> js_status r | Some x \<Rightarrow> x),
                       completedAt := c\<rparr>
                else r)
         (julesSession st)\<rparr>"

text \<open>
  The object the loop of \<^verbatim>\<open>runActiveSessionSync\<close> calls \<^verbatim>\<open>remoteSession\<close>, reduced to
  the one property the loop reads, \<^verbatim>\<open>remoteSession.state\<close> (\<open>None\<close>: \<^verbatim>\<open>undefined\<close>). One
  variant gets it from \<^verbatim>\<open>julesClient.getSession(dbSession.id)\<close>, a session. The other
  gets it from \<^verbatim>\<open>julesGetActivityTool.execute({ sessionId: dbSession.id })\<close>, which is
  the list of the session's activities, an object with the properties \<^verbatim>\<open>activities\<close>
  and \<^verbatim>\<open>nextPageToken\<close> and no \<^verbatim>\<open>state\<close>.
\<close>

definition remoteSession_state :: "variant \<Rightarrow> env \<Rightarrow> string \<Rightarrow> err + string option" where
  "remoteSession_state v e sessionId =
     (case v of
        Via_client \<Rightarrow>
          (case getSession e sessionId of
             Inl er \<Rightarrow> Inl er
           | Inr remoteSession \<Rightarrow> Inr (Some (sess_state remoteSession)))
      | Via_tools \<Rightarrow>
          (case JulesGetActivityTool_execute e Status_fetch sessionId of
             Inl er \<Rightarrow> Inl er
           | Inr response \<Rightarrow> Inr None))"

text \<open>
  One iteration of the loop of \<^verbatim>\<open>runActiveSessionSync\<close>, with its own \<^verbatim>\<open>try/catch\<close>:
  the status fetch, the status update when \<^verbatim>\<open>remoteSession.state !== dbSession.status\<close>,
  the activity mirror. \<^verbatim>\<open>dbSession\<close> is the row as the query at the head of the pass
  returned it.
\<close>

definition sync_session :: "variant \<Rightarrow> env \<Rightarrow> JulesSession \<Rightarrow> state \<Rightarrow> state" where
  "sync_session v e dbSession st =
     (case remoteSession_state v e (js_id dbSession) of
        Inl er \<Rightarrow> st
      | Inr remote_state \<Rightarrow>
          if remote_state \<noteq> Some (js_status dbSession) then
            (case db_fault e (UpdateSession (js_id dbSession)) of
               Some er \<Rightarrow> st
             | None \<Rightarrow>
                 syncActivitiesForSession v e (js_id dbSession)
                   (update_session (js_id dbSession) remote_state
                      (if remote_state = Some ''COMPLETED'' \<or> remote_state = Some ''FAILED''
                       then Some (Date_at (now e)) else None) st))
          else syncActivitiesForSession v e (js_id dbSession) st)"

fun sync_loop :: "variant \<Rightarrow> env \<Rightarrow> JulesSession list \<Rightarrow> state \<Rightarrow> state" where
  "sync_loop v e [] st = st"
| "sync_loop v e (dbSession # rest) st = sync_loop v e rest (sync_session v e dbSession st)"

text \<open>
  \<^verbatim>\<open>runActiveSessionSync\<close>: the query for the active sessions and the cache write stand
  outside every \<^verbatim>\<open>try\<close>, so their exceptions leave the function (\<open>Some\<close>).
\<close>

definition runActiveSessionSync :: "variant \<Rightarrow> env \<Rightarrow> state \<Rightarrow> err option \<times> state" where
  "runActiveSessionSync v e st =
     (case db_fault e FindManyActive of
        Some er \<Rightarrow> (Some er, st)
      | None \<Rightarrow>
          (let activeSessions =
                 filter (\<lambda>r. js_status r \<notin> set [''COMPLETED'', ''FAILED'']) (julesSession st)
           in if length activeSessions = 0 then (None, st)
              else
                (let st' = sync_loop v e activeSessions st
                 in if KV e then
                      (case kv_put_fault e of
                         Some er \<Rightarrow> (Some er, st')
                       | None \<Rightarrow> (None, st'\<lparr>DASHBOARD_LAST_SYNC := Some (now e)\<rparr>))
                    else (None, st'))))"

section \<open>Interventions\<close>

definition AUTO_APPROVAL :: string where "AUTO_APPROVAL = ''AUTO_APPROVAL''"
definition AGENT_REPLY :: string where "AGENT_REPLY = ''AGENT_REPLY''"
definition ERROR :: string where "ERROR = ''ERROR''"

text \<open>\<^verbatim>\<open>text.toLowerCase()\<close> on the ASCII letters, which is all the keyword tests look at.\<close>

definition to_lower :: "char \<Rightarrow> char" where
  "to_lower c =
     (if 65 \<le> (of_char c :: nat) \<and> (of_char c :: nat) \<le> 90
      then char_of ((of_char c :: nat) + 32) else c)"

definition toLowerCase :: "string \<Rightarrow> string" where
  "toLowerCase s = map to_lower s"

text \<open>\<^verbatim>\<open>items.join(sep)\<close>.\<close>

fun join :: "string \<Rightarrow> string list \<Rightarrow> string" where
  "join sep [] = []"
| "join sep [x] = x"
| "join sep (x # y # ys) = x @ sep @ join sep (y # ys)"

definition generateFallbackResponse :: "string \<Rightarrow> EnhancedContext \<Rightarrow> string" where
  "generateFallbackResponse question ctx =
     join [CHR 0x0A]
       ([''Based on your question, here'' @ [CHR 0x27] @ ''s what I recommend:'', []] @
        (if length (bindings ctx) > 0
         then [''Note: This project uses: '' @ join '', '' (bindings ctx)] else []) @
        (if str_includes (toLowerCase question) ''error'' \<or>
            str_includes (toLowerCase question) ''failed''
         then [''1. Check the error message for specific details'',
               ''2. Verify all required environment variables are set'',
               ''3. Ensure wrangler.toml has correct bindings configured'']
         else if str_includes (toLowerCase question) ''how'' \<or>
                 str_includes (toLowerCase question) ''should''
         then [''Please proceed with your best judgment based on the requirements.'',
               ''I trust your implementation approach.'']
         else [''Please continue with your current approach.'']))"

definition generateIntervention :: "env \<Rightarrow> string \<Rightarrow> EnhancedContext \<Rightarrow> string" where
  "generateIntervention e question ctx =
     (case overseer e question ctx of
        Some reply \<Rightarrow> reply
      | None \<Rightarrow> generateFallbackResponse question ctx)"

text \<open>\<^verbatim>\<open>logInteraction\<close>: one row per call; the insert can throw.\<close>

definition logInteraction ::
  "env \<Rightarrow> string \<Rightarrow> string \<Rightarrow> string option \<Rightarrow> string option \<Rightarrow> bool \<Rightarrow> string option \<Rightarrow>
   state \<Rightarrow> err option \<times> state" where
  "logInteraction e sessionId type jm ar ok em st =
     (case db_fault e (CreateInteraction sessionId type) of
        Some er \<Rightarrow> (Some er, st)
      | None \<Rightarrow>
          (None, st\<lparr>julesInteraction := julesInteraction st @
             [\<lparr>ji_sessionId = sessionId, ji_type = type, julesMessage = jm,
               agentResponse = ar, isSuccess = ok, errorMessage = em\<rparr>]\<rparr>))"

text \<open>
  \<^verbatim>\<open>handlePlanApproval\<close>: the success row is written inside the \<^verbatim>\<open>try\<close>, so a failure
  to write it is reported as a failed approval; the error row is written in the
  \<^verbatim>\<open>catch\<close>, and a failure there leaves the function.
\<close>

definition handlePlanApproval :: "env \<Rightarrow> JulesSession \<Rightarrow> state \<Rightarrow> err option \<times> state" where
  "handlePlanApproval e dbSession st =
     (let failed = (\<lambda>er st'.
            logInteraction e (js_id dbSession) ERROR None None False
              (Some (''Plan approval failed: '' @ er)) st')
      in case approvePlan e (js_id dbSession) of
           Some er \<Rightarrow> failed er st
         | None \<Rightarrow>
             (let st1 = st\<lparr>outbox := outbox st @ [ApprovePlan (js_id dbSession)]\<rparr>
              in case logInteraction e (js_id dbSession) AUTO_APPROVAL None
                        (Some ''Plan automatically approved by JulesMonitorService'') True None st1 of
                   (Some er, st2) \<Rightarrow> failed er st2
                 | (None, st2) \<Rightarrow> (None, st2)))"

text \<open>
  The loop-prevention query of \<^verbatim>\<open>handleUserFeedback\<close>: the latest row of this session
  with type \<^verbatim>\<open>AGENT_REPLY\<close> and exactly this question.
\<close>

definition findFirst_reply :: "state \<Rightarrow> string \<Rightarrow> string \<Rightarrow> JulesInteraction option" where
  "findFirst_reply st sessionId julesQuestion =
     find (\<lambda>i. ji_sessionId i = sessionId \<and> ji_type i = AGENT_REPLY \<and>
               julesMessage i = Some julesQuestion)
       (rev (julesInteraction st))"

definition parse_context :: "env \<Rightarrow> JulesSession \<Rightarrow> err + EnhancedContext" where
  "parse_context e dbSession =
     (case enhancedContext dbSession of
        None \<Rightarrow> Inr \<lparr>bindings = [], techStack = [], constraints = [], documentation = []\<rparr>
      | Some blob \<Rightarrow>
          if blob = [] then
            Inr \<lparr>bindings = [], techStack = [], constraints = [], documentation = []\<rparr>
          else json_parse_context e blob)"

text \<open>The \<^verbatim>\<open>try/catch\<close> that ends \<^verbatim>\<open>handleUserFeedback\<close>: send, then record.\<close>

definition send_intervention ::
  "env \<Rightarrow> JulesSession \<Rightarrow> string \<Rightarrow> string \<Rightarrow> state \<Rightarrow> (err + bool) \<times> state" where
  "send_intervention e dbSession julesQuestion reply st =
     (let failed = (\<lambda>er st'.
            case logInteraction e (js_id dbSession) ERROR (Some julesQuestion) None False
                   (Some (''Failed to send intervention: '' @ er)) st' of
              (Some er', st'') \<Rightarrow> (Inl er', st'')
            | (None, st'') \<Rightarrow> (Inr False, st''))
      in case sendMessage e (js_id dbSession) reply of
           Some er \<Rightarrow> failed er st
         | None \<Rightarrow>
             (let st1 = st\<lparr>outbox := outbox st @ [SendMessage (js_id dbSession) reply]\<rparr>
              in case logInteraction e (js_id dbSession) AGENT_REPLY (Some julesQuestion)
                        (Some reply) True None st1 of
                   (Some er, st2) \<Rightarrow> failed er st2
                 | (None, st2) \<Rightarrow> (Inr True, st2)))"

text \<open>
  \<^verbatim>\<open>handleUserFeedback\<close>: the first activity of the page that carries an agent message
  is the question; an empty message is no question.
\<close>

definition handleUserFeedback :: "env \<Rightarrow> JulesSession \<Rightarrow> state \<Rightarrow> (err + bool) \<times> state" where
  "handleUserFeedback e dbSession st =
     (case listActivities e Dispatch (js_id dbSession) (Some 5) of
        Inl er \<Rightarrow> (Inl er, st)
      | Inr activities \<Rightarrow>
          (case (case activities of
                   None \<Rightarrow> None
                 | Some acts \<Rightarrow> find (\<lambda>a. agentMessaged a \<noteq> None) acts) of
             None \<Rightarrow> (Inr False, st)
           | Some lastAgentMessage \<Rightarrow>
               (case agentMessaged lastAgentMessage of
                  None \<Rightarrow> (Inr False, st)
                | Some julesQuestion \<Rightarrow>
                    if julesQuestion = [] then (Inr False, st)
                    else
                      (case db_fault e (FindFirstInteraction (js_id dbSession) julesQuestion) of
                         Some er \<Rightarrow> (Inl er, st)
                       | None \<Rightarrow>
                           (case findFirst_reply st (js_id dbSession) julesQuestion of
                              Some existingReply \<Rightarrow> (Inr False, st)
                            | None \<Rightarrow>
                                (case parse_context e dbSession of
                                   Inl er \<Rightarrow> (Inl er, st)
                                 | Inr ctx \<Rightarrow>
                                     send_intervention e dbSession julesQuestion
                                       (generateIntervention e julesQuestion ctx) st))))))"

text \<open>
  The test of \<^verbatim>\<open>checkOnJules\<close>, as the source has it: the words \<^verbatim>\<open>error\<close> or
  \<^verbatim>\<open>stuck\<close>, in any case, between two characters U+FFFD (bytes EF BF BD).
\<close>

definition replacement_char :: string where
  "replacement_char = [CHR 0xEF, CHR 0xBF, CHR 0xBD]"

definition stuck_pattern :: "string \<Rightarrow> bool" where
  "stuck_pattern msg =
     (str_includes (toLowerCase msg) (replacement_char @ ''error'' @ replacement_char) \<or>
      str_includes (toLowerCase msg) (replacement_char @ ''stuck'' @ replacement_char))"

text \<open>
  \<^verbatim>\<open>OverseerAgent.checkOnJules\<close>: reads the last activity of the list its activity tool
  returns, asks the documentation search for a fix and sends it. It reads and writes no store table.
  A response without an \<^verbatim>\<open>activities\<close> array makes \<^verbatim>\<open>.length\<close> throw.
\<close>

definition checkOnJules :: "env \<Rightarrow> string \<Rightarrow> state \<Rightarrow> (err + string option) \<times> state" where
  "checkOnJules e sessionId st =
     (case JulesGetActivityTool_execute e Dispatch sessionId of
        Inl er \<Rightarrow> (Inl er, st)
      | Inr None \<Rightarrow> (Inl ''TypeError: Cannot read properties of undefined'', st)
      | Inr (Some acts) \<Rightarrow>
          (case (case pop acts of None \<Rightarrow> None | Some lastActivity \<Rightarrow> agentMessaged lastActivity) of
             None \<Rightarrow> (Inr None, st)
           | Some msg \<Rightarrow>
               if msg \<noteq> [] \<and> stuck_pattern msg then
                 (case docs_search e (''How to fix error in Jules session: '' @ msg) of
                    Inl er \<Rightarrow> (Inl er, st)
                  | Inr None \<Rightarrow> (Inr None, st)
                  | Inr (Some solution) \<Rightarrow>
                      if solution = [] then (Inr None, st)
                      else
                        (case sendMessage e sessionId solution of
                           Some er \<Rightarrow> (Inl er, st)
                         | None \<Rightarrow>
                             (Inr (Some solution),
                              st\<lparr>outbox := outbox st @ [SendMessage sessionId solution]\<rparr>)))
               else (Inr None, st)))"

text \<open>
  \<^verbatim>\<open>checkForStuckSessions\<close> of \<^verbatim>\<open>services/jules-monitor.ts\<close>: nothing is caught, and
  every selected session counts as one intervention.
\<close>

fun stuck_loop :: "env \<Rightarrow> JulesSession list \<Rightarrow> nat \<Rightarrow> state \<Rightarrow> (err + nat) \<times> state" where
  "stuck_loop e [] n st = (Inr n, st)"
| "stuck_loop e (session # rest) n st =
     (case checkOnJules e (js_id session) st of
        (Inl er, st') \<Rightarrow> (Inl er, st')
      | (Inr answer, st') \<Rightarrow> stuck_loop e rest (Suc n) st')"

definition stuckSessions :: "state \<Rightarrow> JulesSession list" where
  "stuckSessions st = filter (\<lambda>r. js_status r = ''WAITING_FOR_USER_FEEDBACK'') (julesSession st)"

definition checkForStuckSessions :: "env \<Rightarrow> state \<Rightarrow> (err + nat) \<times> state" where
  "checkForStuckSessions e st =
     (case db_fault e FindManyStuck of
        Some er \<Rightarrow> (Inl er, st)
      | None \<Rightarrow> stuck_loop e (stuckSessions st) 0 st)"

section \<open>The scheduler\<close>

record run_result =
  synced :: nat
  checked :: nat
  interventions :: nat

text \<open>
  \<^verbatim>\<open>run\<close>, with no \<^verbatim>\<open>try\<close> of its own: discovery and active session sync in both
  variants, then \<^verbatim>\<open>checkForStuckSessions\<close> in \<^verbatim>\<open>services/jules-monitor.ts\<close>.
\<close>

definition run :: "variant \<Rightarrow> env \<Rightarrow> state \<Rightarrow> (err + run_result) \<times> state" where
  "run v e st =
     (case syncExternalSessions e st of
        (n, st1) \<Rightarrow>
          (case runActiveSessionSync v e st1 of
             (Some er, st2) \<Rightarrow> (Inl er, st2)
           | (None, st2) \<Rightarrow>
               (case v of
                  Via_client \<Rightarrow> (Inr \<lparr>synced = n, checked = 0, interventions = 0\<rparr>, st2)
                | Via_tools \<Rightarrow>
                    (case checkForStuckSessions e st2 of
                       (Inl er, st3) \<Rightarrow> (Inl er, st3)
                     | (Inr k, st3) \<Rightarrow>
                         (Inr \<lparr>synced = n, checked = 0, interventions = k\<rparr>, st3)))))"

section \<open>Operations of the monitor, in sequence\<close>

text \<open>
  Every entry point of the two variants of the monitor that touches the store or the
  remote service. A history is a list of calls, each with the environment it ran in;
  a reconciliation pass is such a history.
\<close>

datatype monitor_op =
    Op_run variant
  | Op_syncExternalSessions
  | Op_runActiveSessionSync variant
  | Op_syncActivitiesForSession variant string
  | Op_checkForStuckSessions
  | Op_checkOnJules string
  | Op_handleUserFeedback JulesSession
  | Op_handlePlanApproval JulesSession

fun step :: "env \<Rightarrow> monitor_op \<Rightarrow> state \<Rightarrow> state" where
  "step e (Op_run v) st = snd (run v e st)"
| "step e Op_syncExternalSessions st = snd (syncExternalSessions e st)"
| "step e (Op_runActiveSessionSync v) st = snd (runActiveSessionSync v e st)"
| "step e (Op_syncActivitiesForSession v sessionId) st = syncActivitiesForSession v e sessionId st"
| "step e Op_checkForStuckSessions st = snd (checkForStuckSessions e st)"
| "step e (Op_checkOnJules sessionId) st = snd (checkOnJules e sessionId st)"
| "step e (Op_handleUserFeedback dbSession) st = snd (handleUserFeedback e dbSession st)"
| "step e (Op_handlePlanApproval dbSession) st = snd (handlePlanApproval e dbSession st)"

fun history :: "(env \<times> monitor_op) list \<Rightarrow> state \<Rightarrow> state" where
  "history [] st = st"
| "history ((e, call) # rest) st = history rest (step e call st)"

section \<open>The interactive poller\<close>

record SmartPollerOptions =
  intervalMs :: "nat option"
  timeoutMs :: "nat option"
  autoApprove :: "bool option"

record options =
  o_intervalMs :: nat
  o_timeoutMs :: nat
  o_autoApprove :: bool

text \<open>
  The constructor: \<^verbatim>\<open>options.intervalMs || 5000\<close>, \<^verbatim>\<open>options.timeoutMs || 60 * 60 * 1000\<close>,
  \<^verbatim>\<open>options.autoApprove ?? true\<close>. Durations are whole milliseconds, not negative.
\<close>

definition SmartPoller :: "SmartPollerOptions \<Rightarrow> options" where
  "SmartPoller opts =
     \<lparr>o_intervalMs = (case intervalMs opts of None \<Rightarrow> 5000 | Some n \<Rightarrow> if n = 0 then 5000 else n),
      o_timeoutMs = (case timeoutMs opts of None \<Rightarrow> 60 * 60 * 1000
                     | Some n \<Rightarrow> if n = 0 then 60 * 60 * 1000 else n),
      o_autoApprove = (case autoApprove opts of None \<Rightarrow> True | Some b \<Rightarrow> b)\<rparr>"

text \<open>
  The remote service as the poller sees it: the answer to the k-th \<^verbatim>\<open>getSession\<close> and
  to the k-th \<^verbatim>\<open>approvePlan\<close> (counted from 0), the answer to \<^verbatim>\<open>listActivities\<close> with
  page size 1, and the time one call takes.
\<close>

record remote =
  r_getSession :: "nat \<Rightarrow> err + Session"
  r_approvePlan :: "nat \<Rightarrow> err option"
  r_listActivities :: "err + Activity list option"
  r_call_ms :: nat

text \<open>
  What a run of the poller did: the clock (\<^verbatim>\<open>Date.now() - startTime\<close>), the calls made
  and the state changes reported to the logger.
\<close>

record poll =
  elapsed :: nat
  getSession_calls :: nat
  approvePlan_calls :: nat
  listActivities_calls :: nat
  lastState :: "string option"
  reported :: "string list"

datatype PollResult =
    Poll_COMPLETED Session
  | Poll_FAILED Session
  | Poll_NEEDS_INPUT Session "string option"
  | Poll_TIMEOUT Session

text \<open>
  \<^verbatim>\<open>activities.activities?.[0]?.agentMessaged?.agentMessage || "Agent is requesting feedback."\<close>
\<close>

definition lastMsg :: "Activity list option \<Rightarrow> string" where
  "lastMsg activities =
     (case activities of
        None \<Rightarrow> ''Agent is requesting feedback.''
      | Some [] \<Rightarrow> ''Agent is requesting feedback.''
      | Some (a # rest) \<Rightarrow>
          (case agentMessaged a of
             None \<Rightarrow> ''Agent is requesting feedback.''
           | Some m \<Rightarrow> if m = [] then ''Agent is requesting feedback.'' else m))"

definition observe :: "Session \<Rightarrow> poll \<Rightarrow> poll" where
  "observe session p =
     (if Some (sess_state session) \<noteq> lastState p
      then p\<lparr>lastState := Some (sess_state session),
             reported := reported p @ [sess_state session]\<rparr>
      else p)"

definition called_getSession :: "remote \<Rightarrow> poll \<Rightarrow> poll" where
  "called_getSession r p =
     p\<lparr>getSession_calls := Suc (getSession_calls p), elapsed := elapsed p + r_call_ms r\<rparr>"

definition called_approvePlan :: "remote \<Rightarrow> poll \<Rightarrow> poll" where
  "called_approvePlan r p =
     p\<lparr>approvePlan_calls := Suc (approvePlan_calls p), elapsed := elapsed p + r_call_ms r\<rparr>"

definition called_listActivities :: "remote \<Rightarrow> poll \<Rightarrow> poll" where
  "called_listActivities r p =
     p\<lparr>listActivities_calls := Suc (listActivities_calls p), elapsed := elapsed p + r_call_ms r\<rparr>"

definition sleep :: "nat \<Rightarrow> poll \<Rightarrow> poll" where
  "sleep ms p = p\<lparr>elapsed := elapsed p + ms\<rparr>"

text \<open>The \<^verbatim>\<open>while\<close> loop of \<^verbatim>\<open>monitor\<close> and the final fetch after it.\<close>

function monitor_loop :: "SmartPollerOptions \<Rightarrow> remote \<Rightarrow> poll \<Rightarrow> (err + PollResult) \<times> poll" where
  "monitor_loop opts r p =
     (if elapsed p < o_timeoutMs (SmartPoller opts) then
        (case r_getSession r (getSession_calls p) of
           Inl er \<Rightarrow> (Inl er, called_getSession r p)
         | Inr session \<Rightarrow>
             if sess_state session = state_value COMPLETED then
               (Inr (Poll_COMPLETED session), observe session (called_getSession r p))
             else if sess_state session = state_value FAILED then
               (Inr (Poll_FAILED session), observe session (called_getSession r p))
             else if sess_state session = state_value AWAITING_PLAN_APPROVAL then
               (if o_autoApprove (SmartPoller opts) then
                  (case r_approvePlan r (approvePlan_calls p) of
                     Some er \<Rightarrow>
                       (Inl er, called_approvePlan r (observe session (called_getSession r p)))
                   | None \<Rightarrow>
                       monitor_loop opts r
                         (sleep 1000
                            (called_approvePlan r (observe session (called_getSession r p)))))
                else (Inr (Poll_NEEDS_INPUT session None), observe session (called_getSession r p)))
             else if sess_state session = state_value AWAITING_USER_FEEDBACK then
               (case r_listActivities r of
                  Inl er \<Rightarrow>
                    (Inl er, called_listActivities r (observe session (called_getSession r p)))
                | Inr activities \<Rightarrow>
                    (Inr (Poll_NEEDS_INPUT session (Some (lastMsg activities))),
                     called_listActivities r (observe session (called_getSession r p))))
             else if sess_state session = state_value PAUSED then
               (Inr (Poll_NEEDS_INPUT session None), observe session (called_getSession r p))
             else
               monitor_loop opts r
                 (sleep (o_intervalMs (SmartPoller opts))
                    (observe session (called_getSession r p))))
      else
        (case r_getSession r (getSession_calls p) of
           Inl er \<Rightarrow> (Inl er, called_getSession r p)
         | Inr finalSession \<Rightarrow> (Inr (Poll_TIMEOUT finalSession), called_getSession r p)))"
  by pat_completeness auto
termination
  by (relation "measure (\<lambda>(opts, r, p). o_timeoutMs (SmartPoller opts) - elapsed p)")
    (auto simp: sleep_def called_approvePlan_def called_getSession_def observe_def
       SmartPoller_def split: option.splits)

declare monitor_loop.simps [simp del]

definition start :: poll where
  "start = \<lparr>elapsed = 0, getSession_calls = 0, approvePlan_calls = 0,
     listActivities_calls = 0, lastState = None, reported = []\<rparr>"

text \<open>\<^verbatim>\<open>SmartPoller.monitor\<close>; the remote answers for the session asked about.\<close>

definition monitor :: "SmartPollerOptions \<Rightarrow> remote \<Rightarrow> (err + PollResult) \<times> poll" where
  "monitor opts r = monitor_loop opts r start"

section \<open>Measures and scenarios\<close>

text \<open>
  The number of \<^verbatim>\<open>AGENT_REPLY\<close> rows of session \<open>s\<close> whose \<^verbatim>\<open>julesMessage\<close> is exactly
  \<open>q\<close>.
\<close>

definition reply_count :: "state \<Rightarrow> string \<Rightarrow> string \<Rightarrow> nat" where
  "reply_count st s q =
     length (filter (\<lambda>i. ji_sessionId i = s \<and> ji_type i = AGENT_REPLY \<and> julesMessage i = Some q)
       (julesInteraction st))"

text \<open>
  An environment in which nothing fails: the remote lists no session and no activity,
  every store call succeeds, the Overseer is not bound.
\<close>

definition calm :: env where
  "calm = \<lparr>now = 1000, listSessions = (\<lambda>n. Inr (Some [])),
     getSession = (\<lambda>i. Inl ''Jules API Error: 404 Not Found''),
     listActivities = (\<lambda>c i n. Inr (Some [])), sendMessage = (\<lambda>i m. None),
     approvePlan = (\<lambda>i. None), db_fault = (\<lambda>c. None), KV = True, kv_put_fault = None,
     overseer = (\<lambda>q c. None), json_parse_context = (\<lambda>s. Inl ''SyntaxError''),
     docs_search = (\<lambda>q. Inr None)\<rparr>"

definition remote_session :: "string \<Rightarrow> SessionState \<Rightarrow> Session" where
  "remote_session i s = \<lparr>sess_id = i, sess_title = Some (''Task '' @ i),
     sess_state = state_value s, sess_updateTime = ''2025-01-01T00:00:00Z''\<rparr>"

text \<open>Scenario A: the remote lists the sessions s1 and s2.\<close>

definition env_A :: env where
  "env_A = calm\<lparr>listSessions :=
     (\<lambda>n. Inr (Some [remote_session ''s1'' IN_PROGRESS, remote_session ''s2'' QUEUED]))\<rparr>"

text \<open>
  Scenario D: session s3 awaits feedback and its latest agent message is the question
  \<^verbatim>\<open>Which database?\<close>; the dispatcher runs twice.
\<close>

definition session_D :: JulesSession where
  "session_D = adopted (remote_session ''s3'' AWAITING_USER_FEEDBACK)"

definition question_D :: Activity where
  "question_D = \<lparr>act_name = ''sessions/s3/activities/q1'', act_id = ''q1'',
     act_originator = ''agent'', act_description = ''Agent asked a question'',
     act_createTime = ''2025-01-01T00:00:05Z'', agentMessaged = Some ''Which database?''\<rparr>"

definition env_D :: env where
  "env_D = calm\<lparr>listActivities := (\<lambda>c i n. Inr (Some [question_D])),
     overseer := (\<lambda>q c. Some ''Use D1.'')\<rparr>"

definition store_D :: state where
  "store_D = empty_state\<lparr>julesSession := [session_D]\<rparr>"

text \<open>
  An activity row carries the remote id \<open>r\<close> for session \<open>s\<close> when it belongs to \<open>s\<close>
  and its metadata opens with the field \<^verbatim>\<open>remote_id\<close> holding \<open>r\<close>, as the rows the
  mirror writes do.
\<close>

definition carries :: "ActivityLog \<Rightarrow> string \<Rightarrow> string \<Rightarrow> bool" where
  "carries rec s r =
     (al_sessionId rec = Some s \<and>
      (case metadata rec of
         None \<Rightarrow> False
       | Some m \<Rightarrow> prefix (''{'' @ json_key ''remote_id'' @ json_string r @ '','') m))"

definition carried_count :: "state \<Rightarrow> string \<Rightarrow> string \<Rightarrow> nat" where
  "carried_count st s r = length (filter (\<lambda>rec. carries rec s r) (activityLog st))"

text \<open>An id that \<^verbatim>\<open>JSON.stringify\<close> writes as it is: no quote, backslash or control character.\<close>

definition json_safe :: "string \<Rightarrow> bool" where
  "json_safe r = list_all json_plain r"

text \<open>The remote lists, to the mirror, only activities whose ids are of that kind.\<close>

definition serves_plain_ids :: "env \<Rightarrow> bool" where
  "serves_plain_ids e =
     (\<forall>s n acts. listActivities e Mirror s n = Inr (Some acts) \<longrightarrow>
        list_all (\<lambda>a. json_safe (remoteId a)) acts)"

text \<open>Scenario C: the remote lists the one activity \<^verbatim>\<open>sessions/s1/activities/a1\<close>.\<close>

definition act_a1 :: Activity where
  "act_a1 = \<lparr>act_name = ''sessions/s1/activities/a1'', act_id = ''a1'',
     act_originator = ''agent'', act_description = ''Opened a pull request'',
     act_createTime = ''2025-02-03T04:05:06Z'', agentMessaged = None\<rparr>"

definition env_C :: env where
  "env_C = calm\<lparr>listActivities := (\<lambda>c i n. Inr (Some [act_a1]))\<rparr>"

text \<open>An activity whose id holds a double quote.\<close>

definition act_quoted :: Activity where
  "act_quoted = \<lparr>act_name = ''sessions/s1/activities/a'' @ [dquote] @ ''1'',
     act_id = ''a'' @ [dquote] @ ''1'',
     act_originator = ''agent'', act_description = ''Ran the tests'',
     act_createTime = ''2025-02-03T04:05:06Z'', agentMessaged = None\<rparr>"

definition env_quoted :: env where
  "env_quoted = calm\<lparr>listActivities := (\<lambda>c i n. Inr (Some [act_quoted]))\<rparr>"

text \<open>Two activities of one session, with the ids 10 and 1, listed latest first.\<close>

definition act_10 :: Activity where
  "act_10 = \<lparr>act_name = ''sessions/s1/activities/10'', act_id = ''10'',
     act_originator = ''agent'', act_description = ''Ran the tests'',
     act_createTime = ''2025-02-03T04:05:06Z'', agentMessaged = None\<rparr>"

definition act_1 :: Activity where
  "act_1 = \<lparr>act_name = ''sessions/s1/activities/1'', act_id = ''1'',
     act_originator = ''agent'', act_description = ''Read the repository'',
     act_createTime = ''2025-02-03T04:05:00Z'', agentMessaged = None\<rparr>"

definition env_10_1 :: env where
  "env_10_1 = calm\<lparr>listActivities := (\<lambda>c i n. Inr (Some [act_10, act_1]))\<rparr>"

text \<open>
  Scenario B: the store holds s1 as IN_PROGRESS, and the remote service answers
  \<^verbatim>\<open>GET /sessions/s1\<close> with the state COMPLETED and lists no activity.
  \<open>closed_at t i\<close>: every stored session with id \<open>i\<close> is COMPLETED, completed at \<open>t\<close>.
\<close>

definition env_B :: env where
  "env_B = calm\<lparr>getSession := (\<lambda>i. Inr (remote_session i COMPLETED))\<rparr>"

definition store_B :: state where
  "store_B = empty_state\<lparr>julesSession := [adopted (remote_session ''s1'' IN_PROGRESS)]\<rparr>"

definition closed_at :: "nat \<Rightarrow> string \<Rightarrow> state \<Rightarrow> bool" where
  "closed_at t i st =
     list_all (\<lambda>r. js_id r = i \<longrightarrow> js_status r = ''COMPLETED'' \<and> completedAt r = Some (Date_at t))
       (julesSession st)"

text \<open>A remote whose only session, s1, is already COMPLETED when it is first listed.\<close>

definition env_done :: env where
  "env_done = calm\<lparr>listSessions := (\<lambda>n. Inr (Some [remote_session ''s1'' COMPLETED]))\<rparr>"


text \<open>
  A pass in which discovery, every status fetch, every mirror and every session insert
  or update fail, while the calls of the intervention phase succeed. The second stored
  session has the status the detector asks for.
\<close>

definition stuck_message :: string where
  "stuck_message = ''Build '' @ replacement_char @ ''ERROR'' @ replacement_char @ '' in step 3''"

definition env_rough :: env where
  "env_rough = calm\<lparr>
     listSessions := (\<lambda>n. Inl ''Jules API Error: 503 Service Unavailable''),
     getSession := (\<lambda>i. Inl ''Jules API Error: 429 Too Many Requests''),
     listActivities := (\<lambda>c i n. case c of
         Dispatch \<Rightarrow> Inr (Some [\<lparr>act_name = ''sessions/s4/activities/m1'', act_id = ''m1'',
           act_originator = ''agent'', act_description = ''Agent message'',
           act_createTime = ''2025-02-03T04:05:06Z'', agentMessaged = Some stuck_message\<rparr>])
       | _ \<Rightarrow> Inl ''Jules API Error: 500 Internal''),
     db_fault := (\<lambda>c. case c of UpdateSession i \<Rightarrow> Some ''D1_ERROR: busy''
                       | CreateSession i \<Rightarrow> Some ''D1_ERROR: busy'' | _ \<Rightarrow> None),
     docs_search := (\<lambda>q. Inr (Some ''Pin the compatibility date.''))\<rparr>"

definition store_rough :: state where
  "store_rough = empty_state\<lparr>julesSession :=
     [adopted (remote_session ''s1'' IN_PROGRESS),
      (adopted (remote_session ''s4'' IN_PROGRESS))\<lparr>js_status := ''WAITING_FOR_USER_FEEDBACK''\<rparr>]\<rparr>"

text \<open>
  The same store, holding in addition the record of a reply already sent to session s4
  for that very message.
\<close>

definition store_replied :: state where
  "store_replied = store_rough\<lparr>julesInteraction :=
     [\<lparr>ji_sessionId = ''s4'', ji_type = AGENT_REPLY, julesMessage = Some stuck_message,
       agentResponse = Some ''Pin the compatibility date.'', isSuccess = True,
       errorMessage = None\<rparr>]\<rparr>"

text \<open>
  A remote that answers successive \<^verbatim>\<open>getSession\<close> calls with the given states of
  session s1, and fails once they are used up.
\<close>

definition answers :: "SessionState list \<Rightarrow> nat \<Rightarrow> err + Session" where
  "answers xs k =
     (if k < length xs then Inr (remote_session ''s1'' (xs ! k))
      else Inl ''Jules API Error: no further answer'')"

text \<open>Scenario E.\<close>

definition remote_E :: remote where
  "remote_E = \<lparr>r_getSession =
       answers [AWAITING_PLAN_APPROVAL, AWAITING_PLAN_APPROVAL, IN_PROGRESS, COMPLETED],
     r_approvePlan = (\<lambda>k. None), r_listActivities = Inr (Some []), r_call_ms = 120\<rparr>"

definition opts_E :: SmartPollerOptions where
  "opts_E = \<lparr>intervalMs = None, timeoutMs = None, autoApprove = Some True\<rparr>"

text \<open>A paused session, and one that awaits feedback, each with a question as latest activity.\<close>

definition remote_paused :: remote where
  "remote_paused = \<lparr>r_getSession = answers [PAUSED],
     r_approvePlan = (\<lambda>k. None), r_listActivities = Inr (Some [question_D]), r_call_ms = 120\<rparr>"

definition remote_feedback :: remote where
  "remote_feedback = \<lparr>r_getSession = answers [AWAITING_USER_FEEDBACK],
     r_approvePlan = (\<lambda>k. None), r_listActivities = Inr (Some [question_D]), r_call_ms = 120\<rparr>"

text \<open>Every stored session that has a completion time is COMPLETED or FAILED.\<close>

definition completion_sound :: "state \<Rightarrow> bool" where
  "completion_sound st =
     list_all (\<lambda>r. completedAt r \<noteq> None \<longrightarrow> is_closed (js_status r)) (julesSession st)"

section \<open>What each operation leaves alone\<close>

lemma adopt_loop_frame:
  "adopt_loop e xs n st = (c, m, st') \<Longrightarrow>
   activityLog st' = activityLog st \<and> julesInteraction st' = julesInteraction st \<and>
   outbox st' = outbox st \<and> DASHBOARD_LAST_SYNC st' = DASHBOARD_LAST_SYNC st"
  by (induction xs arbitrary: n st) (auto split: option.splits)

lemma syncExternalSessions_frame:
  "syncExternalSessions e st = (m, st') \<Longrightarrow>
   activityLog st' = activityLog st \<and> julesInteraction st' = julesInteraction st \<and>
   outbox st' = outbox st \<and> DASHBOARD_LAST_SYNC st' = DASHBOARD_LAST_SYNC st"
  by (auto simp: syncExternalSessions_def split: sum.splits prod.splits dest: adopt_loop_frame)

lemma mirror_loop_frame:
  "julesSession (mirror_loop e s as st) = julesSession st \<and>
   julesInteraction (mirror_loop e s as st) = julesInteraction st \<and>
   outbox (mirror_loop e s as st) = outbox st \<and>
   DASHBOARD_LAST_SYNC (mirror_loop e s as st) = DASHBOARD_LAST_SYNC st"
  by (induction as arbitrary: st) (auto simp: Let_def split: option.splits)

lemma syncActivitiesForSession_frame:
  "julesSession (syncActivitiesForSession v e s st) = julesSession st \<and>
   julesInteraction (syncActivitiesForSession v e s st) = julesInteraction st \<and>
   outbox (syncActivitiesForSession v e s st) = outbox st \<and>
   DASHBOARD_LAST_SYNC (syncActivitiesForSession v e s st) = DASHBOARD_LAST_SYNC st"
  by (simp add: syncActivitiesForSession_def JulesGetActivityTool_execute_def mirror_loop_frame
      split: sum.splits variant.splits)

lemma sync_session_frame:
  "julesInteraction (sync_session v e d st) = julesInteraction st \<and>
   outbox (sync_session v e d st) = outbox st"
  by (simp add: sync_session_def syncActivitiesForSession_frame update_session_def
      split: sum.splits option.splits)

lemma sync_loop_frame:
  "julesInteraction (sync_loop v e ds st) = julesInteraction st \<and>
   outbox (sync_loop v e ds st) = outbox st"
  by (induction ds arbitrary: st) (simp_all add: sync_session_frame)

lemma runActiveSessionSync_frame:
  "julesInteraction (snd (runActiveSessionSync v e st)) = julesInteraction st \<and>
   outbox (snd (runActiveSessionSync v e st)) = outbox st"
  by (simp add: runActiveSessionSync_def Let_def sync_loop_frame split: option.splits)

lemma checkOnJules_frame:
  "julesSession (snd (checkOnJules e s st)) = julesSession st \<and>
   activityLog (snd (checkOnJules e s st)) = activityLog st \<and>
   julesInteraction (snd (checkOnJules e s st)) = julesInteraction st"
  by (simp add: checkOnJules_def split: sum.splits option.splits)

lemma stuck_loop_frame:
  "julesSession (snd (stuck_loop e ds n st)) = julesSession st \<and>
   activityLog (snd (stuck_loop e ds n st)) = activityLog st \<and>
   julesInteraction (snd (stuck_loop e ds n st)) = julesInteraction st"
proof (induction ds arbitrary: n st)
  case Nil
  then show ?case by simp
next
  case (Cons d ds)
  obtain res st' where c: "checkOnJules e (js_id d) st = (res, st')"
    by (cases "checkOnJules e (js_id d) st")
  with checkOnJules_frame [of e "js_id d" st] Cons show ?case
    by (cases res) simp_all
qed

lemma checkForStuckSessions_frame:
  "julesSession (snd (checkForStuckSessions e st)) = julesSession st \<and>
   activityLog (snd (checkForStuckSessions e st)) = activityLog st \<and>
   julesInteraction (snd (checkForStuckSessions e st)) = julesInteraction st"
  by (simp add: checkForStuckSessions_def stuck_loop_frame split: option.splits)

lemma run_interactions:
  "julesInteraction (snd (run v e st)) = julesInteraction st"
proof -
  obtain n st1 where a: "syncExternalSessions e st = (n, st1)"
    by (cases "syncExternalSessions e st")
  obtain c st2 where b: "runActiveSessionSync v e st1 = (c, st2)"
    by (cases "runActiveSessionSync v e st1")
  obtain k st3 where d: "checkForStuckSessions e st2 = (k, st3)"
    by (cases "checkForStuckSessions e st2")
  have "julesInteraction st1 = julesInteraction st"
    using syncExternalSessions_frame [OF a] by simp
  moreover have "julesInteraction st2 = julesInteraction st1"
    using runActiveSessionSync_frame [of v e st1] b by simp
  moreover have "julesInteraction st3 = julesInteraction st2"
    using checkForStuckSessions_frame [of e st2] d by simp
  ultimately show ?thesis
    using a b d by (simp add: run_def split: option.splits sum.splits variant.splits)
qed

section \<open>Loop prevention\<close>

lemma findFirst_reply_None: "findFirst_reply st s q = None \<longleftrightarrow> reply_count st s q = 0"
  by (auto simp: findFirst_reply_def reply_count_def find_None_iff filter_empty_conv)

lemma reply_count_cong:
  "julesInteraction st' = julesInteraction st \<Longrightarrow> reply_count st' s q = reply_count st s q"
  by (simp add: reply_count_def)

lemma logInteraction_reply_count:
  "reply_count (snd (logInteraction e i t jm ar ok em st)) s q \<le>
     reply_count st s q + (if i = s \<and> t = AGENT_REPLY \<and> jm = Some q then 1 else 0)"
  by (simp add: logInteraction_def reply_count_def split: option.splits)

lemma logInteraction_outbox:
  "outbox (snd (logInteraction e i t jm ar ok em st)) = outbox st"
  by (simp add: logInteraction_def split: option.splits)

lemma ERROR_not_reply: "ERROR \<noteq> AGENT_REPLY" "AUTO_APPROVAL \<noteq> AGENT_REPLY"
  by (simp_all add: ERROR_def AGENT_REPLY_def AUTO_APPROVAL_def)

lemma handlePlanApproval_reply_count:
  "reply_count (snd (handlePlanApproval e d st)) s q = reply_count st s q"
  by (auto simp: handlePlanApproval_def Let_def logInteraction_def reply_count_def ERROR_not_reply
      split: option.splits prod.splits)

lemma send_intervention_reply_count:
  "reply_count (snd (send_intervention e d jq reply st)) s q \<le>
     reply_count st s q + (if js_id d = s \<and> jq = q then 1 else 0)"
  by (auto simp: send_intervention_def Let_def logInteraction_def reply_count_def ERROR_not_reply
      split: option.splits prod.splits)

lemma handleUserFeedback_reply_count:
  "reply_count (snd (handleUserFeedback e d st)) s q \<le> max 1 (reply_count st s q)"
proof -
  have "reply_count (snd (send_intervention e d jq reply st)) s q \<le> max 1 (reply_count st s q)"
    if "findFirst_reply st (js_id d) jq = None" for jq reply
  proof (cases "js_id d = s \<and> jq = q")
    case True
    with that have "reply_count st s q = 0" by (simp add: findFirst_reply_None)
    with send_intervention_reply_count [of e d jq reply st s q] True show ?thesis by simp
  next
    case False
    with send_intervention_reply_count [of e d jq reply st s q] show ?thesis by auto
  qed
  then show ?thesis
    by (auto simp: handleUserFeedback_def split: sum.splits option.splits)
qed

lemma step_reply_count:
  "reply_count (step e c st) s q \<le> max 1 (reply_count st s q)"
proof (cases c)
  case (Op_run v)
  then show ?thesis by (simp add: reply_count_cong [OF run_interactions])
next
  case Op_syncExternalSessions
  obtain n st' where a: "syncExternalSessions e st = (n, st')"
    by (cases "syncExternalSessions e st")
  from syncExternalSessions_frame [OF a] a Op_syncExternalSessions show ?thesis
    by (simp add: reply_count_def)
next
  case (Op_runActiveSessionSync v)
  then show ?thesis using runActiveSessionSync_frame [of v e st] by (simp add: reply_count_def)
next
  case (Op_syncActivitiesForSession v x)
  then show ?thesis using syncActivitiesForSession_frame [of v e x st] by (simp add: reply_count_def)
next
  case Op_checkForStuckSessions
  then show ?thesis using checkForStuckSessions_frame [of e st] by (simp add: reply_count_def)
next
  case (Op_checkOnJules x)
  then show ?thesis using checkOnJules_frame [of e x st] by (simp add: reply_count_def)
next
  case (Op_handleUserFeedback d)
  then show ?thesis using handleUserFeedback_reply_count [of e d st s q] by simp
next
  case (Op_handlePlanApproval d)
  then show ?thesis by (simp add: handlePlanApproval_reply_count)
qed

lemma history_reply_count:
  "reply_count st s q \<le> 1 \<Longrightarrow> reply_count (history h st) s q \<le> 1"
proof (induction h arbitrary: st)
  case Nil
  then show ?case by simp
next
  case (Cons a h)
  obtain e c where a: "a = (e, c)" by (cases a)
  have "reply_count (step e c st) s q \<le> 1"
    using step_reply_count [of e c st s q] Cons.prems by simp
  then show ?case using Cons.IH a by simp
qed

lemma handleUserFeedback_skip:
  assumes "listActivities e Dispatch (js_id d) (Some 5) = Inr (Some acts)"
    and "find (\<lambda>a. agentMessaged a \<noteq> None) acts = Some a"
    and "agentMessaged a = Some q"
    and "1 \<le> reply_count st (js_id d) q"
  shows "snd (handleUserFeedback e d st) = st"
proof -
  from assms(4) have "findFirst_reply st (js_id d) q \<noteq> None"
    by (simp add: findFirst_reply_None)
  with assms(1-3) show ?thesis
    by (auto simp: handleUserFeedback_def split: option.splits)
qed

text \<open>
  The dispatcher \<^verbatim>\<open>handleUserFeedback\<close> of the variant that calls the client itself: in
  every history of monitor operations that starts from a store with at most one
  \<^verbatim>\<open>AGENT_REPLY\<close> row per session and question, there is at most one such row per session
  and question afterwards; and the dispatcher asks the store for an \<^verbatim>\<open>AGENT_REPLY\<close> row of
  the session with exactly the extracted question before it sends, and when one exists
  it sends nothing and writes nothing.
\<close>

lemma handleUserFeedback_loop_prevention:
  "(reply_count st s q' \<le> 1 \<longrightarrow> reply_count (history h st) s q' \<le> 1) \<and>
   (listActivities e Dispatch (js_id d) (Some 5) = Inr (Some acts) \<and>
    find (\<lambda>a. agentMessaged a \<noteq> None) acts = Some a \<and> agentMessaged a = Some q \<and>
    1 \<le> reply_count st' (js_id d) q \<longrightarrow>
      snd (handleUserFeedback e d st') = st')"
  using history_reply_count handleUserFeedback_skip by blast

lemma handleUserFeedback_scenario_D:
  "reply_count
     (history [(env_D, Op_handleUserFeedback session_D), (env_D, Op_handleUserFeedback session_D)]
        store_D) ''s3'' ''Which database?'' = 1 \<and>
   outbox
     (history [(env_D, Op_handleUserFeedback session_D), (env_D, Op_handleUserFeedback session_D)]
        store_D) = [SendMessage ''s3'' ''Use D1.''] \<and>
   snd (handleUserFeedback env_D session_D (history [(env_D, Op_handleUserFeedback session_D)] store_D))
     = history [(env_D, Op_handleUserFeedback session_D)] store_D"
  using handleUserFeedback_loop_prevention [of store_D "''s3''" "''Which database?''"
      "[(env_D, Op_handleUserFeedback session_D), (env_D, Op_handleUserFeedback session_D)]"
      env_D session_D "[question_D]" question_D "''Which database?''"
      "history [(env_D, Op_handleUserFeedback session_D)] store_D"]
  by (simp add: reply_count_def store_D_def empty_state_def env_D_def calm_def session_D_def
      adopted_def remote_session_def question_D_def handleUserFeedback_def findFirst_reply_def
      parse_context_def generateIntervention_def send_intervention_def logInteraction_def
      AGENT_REPLY_def ERROR_def)

section \<open>The activity mirror\<close>

lemma str_includes_sublist: "str_includes hay needle = sublist needle hay"
  by (induction hay) (simp_all add: sublist_Cons_right)

lemma json_safe_escape: "json_safe r \<Longrightarrow> concat (map json_escape_char r) = r"
  by (induction r) (simp_all add: json_safe_def json_escape_char_def)

lemma json_safe_string: "json_safe r \<Longrightarrow> json_string r = dquote # r @ [dquote]"
  by (simp add: json_string_def json_safe_escape)

lemma sublist_quoted: "sublist r (p @ dquote # r @ dquote # q)"
proof -
  have "p @ dquote # r @ dquote # q = (p @ [dquote]) @ r @ (dquote # q)" by simp
  then show ?thesis by (simp only: sublist_appendI)
qed

lemma mirror_metadata_shape:
  "mirror_metadata r a =
     (''{'' @ json_key ''remote_id'') @ json_string r @ '','' @
     (json_key ''full_resource'' @ json_string (act_name a) @
      '','' @ json_key ''type'' @ json_string ''JULES_SYNC'' @
      '','' @ json_key ''original_act'' @ json_activity a @ ''}'')"
  by (simp add: mirror_metadata_def)

lemma mirror_metadata_includes:
  assumes "json_safe r"
  shows "str_includes (mirror_metadata r a) r"
  unfolding str_includes_sublist mirror_metadata_shape json_safe_string [OF assms]
  using sublist_quoted [of r "''{'' @ json_key ''remote_id''"] by simp

lemma carries_includes:
  assumes "json_safe r" and "carries rec s r"
  shows "al_sessionId rec = Some s \<and> metadata_contains rec r"
proof -
  from assms(2) obtain m where m: "metadata rec = Some m"
    and p: "prefix ((''{'' @ json_key ''remote_id'') @ json_string r @ '','') m"
    and s: "al_sessionId rec = Some s"
    by (auto simp: carries_def split: option.splits)
  from p obtain rest where "m = ((''{'' @ json_key ''remote_id'') @ json_string r @ '','') @ rest"
    by (auto simp: prefix_def)
  then have "m = (''{'' @ json_key ''remote_id'') @ dquote # r @ dquote # ('','' @ rest)"
    by (simp add: json_safe_string [OF assms(1)])
  then have "sublist r m"
    using sublist_quoted [of r "''{'' @ json_key ''remote_id''" "'','' @ rest"] by simp
  then show ?thesis using m s
    by (simp add: metadata_contains_def str_includes_sublist)
qed

lemma escape_char_head:
  "json_escape_char c = [c] \<and> json_plain c \<or> (\<exists>t. json_escape_char c = bslash # t) \<and> \<not> json_plain c"
  by (simp add: json_escape_char_def)

lemma plain_not_special: "json_plain c \<Longrightarrow> c \<noteq> dquote \<and> c \<noteq> bslash"
  by (simp add: json_plain_def)

lemma escaped_prefix_safe:
  "json_safe r \<Longrightarrow>
   prefix (concat (map json_escape_char r') @ dquote # x) (r @ dquote # y) \<Longrightarrow> r' = r"
proof (induction r' arbitrary: r)
  case Nil
  then show ?case
    by (cases r) (auto simp: json_safe_def dest: plain_not_special)
next
  case (Cons c' cs')
  show ?case
  proof (cases r)
    case Nil
    with Cons.prems(2) escape_char_head [of c'] show ?thesis
      by (auto simp: bslash_def dquote_def dest: plain_not_special)
  next
    case (Cons c cs)
    with Cons.prems(1) have pc: "json_plain c" and scs: "json_safe cs"
      by (simp_all add: json_safe_def)
    from escape_char_head [of c'] show ?thesis
    proof
      assume "json_escape_char c' = [c'] \<and> json_plain c'"
      with Cons.prems(2) Cons have "c' = c"
        and "prefix (concat (map json_escape_char cs') @ dquote # x) (cs @ dquote # y)"
        by simp_all
      with Cons.IH [OF scs] Cons show ?thesis by simp
    next
      assume "(\<exists>t. json_escape_char c' = bslash # t) \<and> \<not> json_plain c'"
      with Cons.prems(2) Cons have "c = bslash" by auto
      with pc show ?thesis by (simp add: json_plain_def)
    qed
  qed
qed

lemma mirrored_carries:
  assumes "json_safe r"
  shows "carries (mirrored s r a) s' r' \<longleftrightarrow> s' = s \<and> r' = r"
proof
  assume c: "carries (mirrored s r a) s' r'"
  then have s: "s' = s" by (simp add: carries_def mirrored_def)
  define p where "p = ''{'' @ json_key ''remote_id''"
  define t where "t = json_key ''full_resource'' @ json_string (act_name a) @
      '','' @ json_key ''type'' @ json_string ''JULES_SYNC'' @
      '','' @ json_key ''original_act'' @ json_activity a @ ''}''"
  have shape: "mirror_metadata r a = p @ json_string r @ '','' @ t"
    unfolding p_def t_def by (rule mirror_metadata_shape)
  from c have "prefix (p @ json_string r' @ '','') (mirror_metadata r a)"
    by (simp add: carries_def mirrored_def p_def)
  then have "prefix (json_string r' @ '','') (json_string r @ '','' @ t)"
    unfolding shape by simp
  then have "prefix (concat (map json_escape_char r') @ dquote # '','') (r @ dquote # ('','' @ t))"
    unfolding json_safe_string [OF assms] by (simp add: json_string_def)
  from escaped_prefix_safe [OF assms this] s show "s' = s \<and> r' = r" by simp
next
  assume "s' = s \<and> r' = r"
  then show "carries (mirrored s r a) s' r'"
    by (simp add: carries_def mirrored_def mirror_metadata_shape)
qed

lemma carried_count_cong:
  "activityLog st' = activityLog st \<Longrightarrow> carried_count st' s r = carried_count st s r"
  by (simp add: carried_count_def)

lemma findFirst_None_count:
  assumes "json_safe r" and "findFirst_activity st s r = None"
  shows "carried_count st s r = 0"
proof -
  have "\<not> carries rec s r" if "rec \<in> set (activityLog st)" for rec
    using assms(2) that carries_includes [OF assms(1), of rec s]
    by (auto simp: findFirst_activity_def find_None_iff)
  then show ?thesis by (simp add: carried_count_def filter_empty_conv)
qed

lemma insert_count:
  assumes "json_safe r" and "findFirst_activity st s r = None"
  shows "carried_count (st\<lparr>activityLog := activityLog st @ [mirrored s r a]\<rparr>) s' r'
           \<le> max 1 (carried_count st s' r')"
proof (cases "s' = s \<and> r' = r")
  case True
  with findFirst_None_count [OF assms] mirrored_carries [OF assms(1), of s a s' r']
  show ?thesis by (simp add: carried_count_def)
next
  case False
  with mirrored_carries [OF assms(1), of s a s' r'] show ?thesis
    by (simp add: carried_count_def)
qed

lemma mirror_loop_count:
  "list_all (\<lambda>a. json_safe (remoteId a)) as \<Longrightarrow>
   carried_count (mirror_loop e s as st) s' r' \<le> max 1 (carried_count st s' r')"
proof (induction as arbitrary: st)
  case Nil
  then show ?case by simp
next
  case (Cons a as)
  then have safe: "json_safe (remoteId a)" and rest: "list_all (\<lambda>a. json_safe (remoteId a)) as"
    by simp_all
  show ?case
  proof (cases "db_fault e (FindFirstActivity s (remoteId a))")
    case (Some er)
    then show ?thesis by simp
  next
    case None
    note nofault = this
    show ?thesis
    proof (cases "findFirst_activity st s (remoteId a)")
      case (Some existing)
      with nofault Cons.IH [OF rest, of st] show ?thesis by simp
    next
      case None
      note absent = this
      show ?thesis
      proof (cases "db_fault e (CreateActivity s (remoteId a))")
        case (Some er)
        with nofault absent show ?thesis by simp
      next
        case None
        let ?st = "st\<lparr>activityLog := activityLog st @ [mirrored s (remoteId a) a]\<rparr>"
        have "carried_count (mirror_loop e s as ?st) s' r' \<le> max 1 (carried_count ?st s' r')"
          by (rule Cons.IH [OF rest])
        moreover have "carried_count ?st s' r' \<le> max 1 (carried_count st s' r')"
          by (rule insert_count [OF safe absent])
        ultimately show ?thesis using nofault absent None by simp
      qed
    qed
  qed
qed

lemma syncActivitiesForSession_count:
  assumes "serves_plain_ids e"
  shows "carried_count (syncActivitiesForSession v e s st) s' r' \<le> max 1 (carried_count st s' r')"
proof -
  have page: "carried_count
      (case listActivities e Mirror s n of
         Inl er \<Rightarrow> st
       | Inr response \<Rightarrow> mirror_loop e s (or_empty response) st) s' r'
        \<le> max 1 (carried_count st s' r')" for n
  proof (cases "listActivities e Mirror s n")
    case (Inl er)
    then show ?thesis by simp
  next
    case (Inr response)
    then have "list_all (\<lambda>a. json_safe (remoteId a)) (or_empty response)"
      using assms by (cases response) (simp_all add: serves_plain_ids_def or_empty_def)
    from mirror_loop_count [OF this] Inr show ?thesis by simp
  qed
  from page [of "Some 10"] page [of None] show ?thesis
    by (cases v) (simp_all add: syncActivitiesForSession_def JulesGetActivityTool_execute_def)
qed

lemma sync_session_count:
  assumes "serves_plain_ids e"
  shows "carried_count (sync_session v e d st) s' r' \<le> max 1 (carried_count st s' r')"
proof -
  have u: "carried_count (update_session i x c st) s' r' = carried_count st s' r'" for i x c
    by (simp add: carried_count_def update_session_def)
  show ?thesis
    using syncActivitiesForSession_count [OF assms, of v "js_id d" st s' r']
      syncActivitiesForSession_count [OF assms, of v "js_id d" "update_session (js_id d) x c st" s' r' for x c]
    by (simp add: sync_session_def u split: sum.splits option.splits)
qed

lemma sync_loop_count:
  assumes "serves_plain_ids e"
  shows "carried_count (sync_loop v e ds st) s' r' \<le> max 1 (carried_count st s' r')"
proof (induction ds arbitrary: st)
  case Nil
  then show ?case by simp
next
  case (Cons d ds)
  have "carried_count (sync_loop v e ds (sync_session v e d st)) s' r'
          \<le> max 1 (carried_count (sync_session v e d st) s' r')"
    by (rule Cons.IH)
  with sync_session_count [OF assms, of v d st s' r'] show ?case by simp
qed

lemma runActiveSessionSync_count:
  assumes "serves_plain_ids e"
  shows "carried_count (snd (runActiveSessionSync v e st)) s' r' \<le> max 1 (carried_count st s' r')"
proof -
  have k: "carried_count (x\<lparr>DASHBOARD_LAST_SYNC := w\<rparr>) s' r' = carried_count x s' r'" for x w
    by (simp add: carried_count_def)
  show ?thesis
    using sync_loop_count [OF assms, of v _ st s' r']
    by (simp add: runActiveSessionSync_def Let_def k split: option.splits)
qed

lemma run_count:
  assumes "serves_plain_ids e"
  shows "carried_count (snd (run v e st)) s' r' \<le> max 1 (carried_count st s' r')"
proof -
  obtain n st1 where a: "syncExternalSessions e st = (n, st1)"
    by (cases "syncExternalSessions e st")
  obtain c st2 where b: "runActiveSessionSync v e st1 = (c, st2)"
    by (cases "runActiveSessionSync v e st1")
  obtain k st3 where d: "checkForStuckSessions e st2 = (k, st3)"
    by (cases "checkForStuckSessions e st2")
  have 1: "carried_count st1 s' r' = carried_count st s' r'"
    using syncExternalSessions_frame [OF a] by (simp add: carried_count_def)
  have 2: "carried_count st2 s' r' \<le> max 1 (carried_count st1 s' r')"
    using runActiveSessionSync_count [OF assms, of v st1 s' r'] b by simp
  have 3: "carried_count st3 s' r' = carried_count st2 s' r'"
    using checkForStuckSessions_frame [of e st2] d by (simp add: carried_count_def)
  from 1 2 3 a b d show ?thesis
    by (simp add: run_def split: option.splits sum.splits variant.splits)
qed

lemma handlePlanApproval_activityLog:
  "activityLog (snd (handlePlanApproval e d st)) = activityLog st"
  by (auto simp: handlePlanApproval_def Let_def logInteraction_def split: option.splits prod.splits)

lemma handleUserFeedback_activityLog:
  "activityLog (snd (handleUserFeedback e d st)) = activityLog st"
  by (auto simp: handleUserFeedback_def send_intervention_def Let_def logInteraction_def
      split: option.splits prod.splits sum.splits)

lemma step_count:
  assumes "serves_plain_ids e"
  shows "carried_count (step e c st) s' r' \<le> max 1 (carried_count st s' r')"
proof (cases c)
  case (Op_run v)
  then show ?thesis using run_count [OF assms] by simp
next
  case Op_syncExternalSessions
  obtain n st' where a: "syncExternalSessions e st = (n, st')"
    by (cases "syncExternalSessions e st")
  from syncExternalSessions_frame [OF a] a Op_syncExternalSessions show ?thesis
    by (simp add: carried_count_def)
next
  case (Op_runActiveSessionSync v)
  then show ?thesis using runActiveSessionSync_count [OF assms] by simp
next
  case (Op_syncActivitiesForSession v x)
  then show ?thesis using syncActivitiesForSession_count [OF assms] by simp
next
  case Op_checkForStuckSessions
  then show ?thesis using checkForStuckSessions_frame [of e st] by (simp add: carried_count_def)
next
  case (Op_checkOnJules x)
  then show ?thesis using checkOnJules_frame [of e x st] by (simp add: carried_count_def)
next
  case (Op_handleUserFeedback d)
  then show ?thesis by (simp add: carried_count_def handleUserFeedback_activityLog)
next
  case (Op_handlePlanApproval d)
  then show ?thesis by (simp add: carried_count_def handlePlanApproval_activityLog)
qed

lemma history_count:
  "list_all (\<lambda>(e, c). serves_plain_ids e) h \<Longrightarrow> carried_count st s r \<le> 1 \<Longrightarrow>
   carried_count (history h st) s r \<le> 1"
proof (induction h arbitrary: st)
  case Nil
  then show ?case by simp
next
  case (Cons a h)
  obtain e c where a: "a = (e, c)" by (cases a)
  with Cons.prems have "serves_plain_ids e" and rest: "list_all (\<lambda>(e, c). serves_plain_ids e) h"
    by simp_all
  then have "carried_count (step e c st) s r \<le> 1"
    using step_count [of e c st s r] Cons.prems(2) by simp
  from Cons.IH [OF rest this] a show ?case by simp
qed

lemma findFirst_activity_append:
  "findFirst_activity st s r \<noteq> None \<Longrightarrow>
   findFirst_activity (st\<lparr>activityLog := activityLog st @ ext\<rparr>) s r \<noteq> None"
  by (auto simp: findFirst_activity_def find_None_iff)

lemma mirror_loop_keeps:
  "findFirst_activity st s r \<noteq> None \<Longrightarrow> findFirst_activity (mirror_loop e s as st) s r \<noteq> None"
proof (induction as arbitrary: st)
  case Nil
  then show ?case by simp
next
  case (Cons a as)
  show ?case
    using Cons.prems Cons.IH [of st]
      Cons.IH [OF findFirst_activity_append [OF Cons.prems, of "[mirrored s (remoteId a) a]"]]
    by (simp split: option.splits)
qed

lemma mirrored_found:
  assumes "json_safe r"
  shows "findFirst_activity (st\<lparr>activityLog := activityLog st @ [mirrored s r a]\<rparr>) s r \<noteq> None"
proof -
  have "metadata_contains (mirrored s r a) r"
    using mirror_metadata_includes [OF assms, of a]
    by (simp add: metadata_contains_def mirrored_def)
  moreover have "al_sessionId (mirrored s r a) = Some s"
    by (simp add: mirrored_def)
  ultimately show ?thesis
    unfolding findFirst_activity_def find_None_iff by auto
qed

lemma mirror_loop_covers:
  "db_fault e = (\<lambda>c. None) \<Longrightarrow> list_all (\<lambda>a. json_safe (remoteId a)) as \<Longrightarrow>
   a \<in> set as \<Longrightarrow> findFirst_activity (mirror_loop e s as st) s (remoteId a) \<noteq> None"
proof (induction as arbitrary: st)
  case Nil
  then show ?case by simp
next
  case (Cons b as)
  then have safe: "json_safe (remoteId b)" and rest: "list_all (\<lambda>a. json_safe (remoteId a)) as"
    by simp_all
  let ?st = "st\<lparr>activityLog := activityLog st @ [mirrored s (remoteId b) b]\<rparr>"
  show ?case
  proof (cases "a = b")
    case True
    show ?thesis
    proof (cases "findFirst_activity st s (remoteId b)")
      case None
      with Cons.prems(1) True mirror_loop_keeps [OF mirrored_found [OF safe, of st s b], of e as]
      show ?thesis by simp
    next
      case (Some existing)
      then have "findFirst_activity st s (remoteId b) \<noteq> None" by simp
      from mirror_loop_keeps [OF this, of e as] Some Cons.prems(1) True show ?thesis by simp
    qed
  next
    case False
    with Cons.prems(3) have "a \<in> set as" by simp
    from Cons.IH [OF Cons.prems(1) rest this, of st] Cons.IH [OF Cons.prems(1) rest this, of ?st]
      Cons.prems(1)
    show ?thesis by (simp split: option.splits)
  qed
qed

lemma mirror_loop_all_known:
  "\<forall>a\<in>set as. findFirst_activity st s (remoteId a) \<noteq> None \<Longrightarrow> mirror_loop e s as st = st"
  by (induction as) (auto split: option.splits)

lemma mirror_twice:
  assumes "db_fault e = (\<lambda>c. None)" and "serves_plain_ids e"
    and "listActivities e' Mirror s = listActivities e Mirror s"
  shows "syncActivitiesForSession v e' s (syncActivitiesForSession v e s st) =
           syncActivitiesForSession v e s st"
proof -
  define page where "page = (\<lambda>e0 n st0.
      case listActivities e0 Mirror s n of
        Inl er \<Rightarrow> st0
      | Inr response \<Rightarrow> mirror_loop e0 s (or_empty response) st0)"
  have twice: "page e' n (page e n st) = page e n st" for n
  proof (cases "listActivities e Mirror s n")
    case (Inl er)
    with assms(3) show ?thesis by (simp add: page_def)
  next
    case (Inr response)
    then have safe: "list_all (\<lambda>a. json_safe (remoteId a)) (or_empty response)"
      using assms(2) by (cases response) (simp_all add: serves_plain_ids_def or_empty_def)
    have "\<forall>a\<in>set (or_empty response).
            findFirst_activity (mirror_loop e s (or_empty response) st) s (remoteId a) \<noteq> None"
      using mirror_loop_covers [OF assms(1) safe] by blast
    from mirror_loop_all_known [OF this] Inr assms(3) show ?thesis
      by (simp add: page_def)
  qed
  have "syncActivitiesForSession v e0 s st0 =
          page e0 (case v of Via_client \<Rightarrow> Some 10 | Via_tools \<Rightarrow> None) st0" for e0 st0
    by (cases v) (simp_all add: syncActivitiesForSession_def JulesGetActivityTool_execute_def page_def)
  with twice show ?thesis by simp
qed

lemma pass_10_1_first_client:
  "syncActivitiesForSession Via_client env_10_1 ''s1'' empty_state =
     empty_state\<lparr>activityLog := [mirrored ''s1'' ''10'' act_10]\<rparr>"
  by code_simp

lemma pass_10_1_first_tools:
  "syncActivitiesForSession Via_tools env_10_1 ''s1'' empty_state =
     empty_state\<lparr>activityLog := [mirrored ''s1'' ''10'' act_10]\<rparr>"
  by code_simp

lemma pass_10_1_first:
  "syncActivitiesForSession v env_10_1 ''s1'' empty_state =
     empty_state\<lparr>activityLog := [mirrored ''s1'' ''10'' act_10]\<rparr>"
  by (cases v) (simp_all add: pass_10_1_first_client pass_10_1_first_tools)

lemma pass_10_1_again_client:
  "syncActivitiesForSession Via_client env_10_1 ''s1''
     (empty_state\<lparr>activityLog := [mirrored ''s1'' ''10'' act_10]\<rparr>) =
     empty_state\<lparr>activityLog := [mirrored ''s1'' ''10'' act_10]\<rparr>"
  by code_simp

lemma pass_10_1_again_tools:
  "syncActivitiesForSession Via_tools env_10_1 ''s1''
     (empty_state\<lparr>activityLog := [mirrored ''s1'' ''10'' act_10]\<rparr>) =
     empty_state\<lparr>activityLog := [mirrored ''s1'' ''10'' act_10]\<rparr>"
  by code_simp

lemma pass_10_1_again:
  "syncActivitiesForSession v env_10_1 ''s1''
     (empty_state\<lparr>activityLog := [mirrored ''s1'' ''10'' act_10]\<rparr>) =
     empty_state\<lparr>activityLog := [mirrored ''s1'' ''10'' act_10]\<rparr>"
  by (cases v) (simp_all add: pass_10_1_again_client pass_10_1_again_tools)

lemma pass_10_1_no_1: "carried_count (empty_state\<lparr>activityLog := [mirrored ''s1'' ''10'' act_10]\<rparr>) ''s1'' ''1'' = 0"
  by code_simp

lemma pass_10_1_always: "((syncActivitiesForSession v env_10_1 ''s1'') ^^ Suc n) empty_state =
     empty_state\<lparr>activityLog := [mirrored ''s1'' ''10'' act_10]\<rparr>"
  by (induction n) (simp_all add: pass_10_1_first pass_10_1_again)

text \<open>
  Where the remote lists, to the mirror, only activities whose ids hold no quote, no
  backslash and no control character: a store with at most one row carrying a remote
  id for a session has at most one after any history of monitor operations; and after
  a mirror pass that met no store failure, a second pass over the same remote list
  leaves the store as it is.
\<close>

lemma mirror_idempotent_plain_ids:
  "(list_all (\<lambda>(e, c). serves_plain_ids e) h \<and> carried_count st s r \<le> 1 \<longrightarrow>
      carried_count (history h st) s r \<le> 1) \<and>
   (db_fault e = (\<lambda>c. None) \<and> serves_plain_ids e \<and>
    listActivities e' Mirror s' = listActivities e Mirror s' \<longrightarrow>
      syncActivitiesForSession v e' s' (syncActivitiesForSession v e s' st') =
        syncActivitiesForSession v e s' st')"
  using history_count mirror_twice by blast

lemma mirror_scenario_C:
  "carried_count
     (history [(env_C, Op_syncActivitiesForSession Via_tools ''s1''),
               (env_C, Op_syncActivitiesForSession Via_tools ''s1'')]
        empty_state) ''s1'' ''a1'' = 1 \<and>
   length (activityLog (syncActivitiesForSession Via_tools env_C ''s1'' empty_state)) = 1 \<and>
   syncActivitiesForSession Via_tools env_C ''s1''
     (syncActivitiesForSession Via_tools env_C ''s1'' empty_state) =
     syncActivitiesForSession Via_tools env_C ''s1'' empty_state"
proof -
  have plain: "serves_plain_ids env_C"
    by (simp add: serves_plain_ids_def env_C_def calm_def act_a1_def remoteId_def pop_def
        json_safe_def json_plain_def dquote_def bslash_def)
  have nofault: "db_fault env_C = (\<lambda>c. None)"
    by (simp add: env_C_def calm_def)
  have start: "carried_count empty_state ''s1'' ''a1'' \<le> 1"
    by (simp add: carried_count_def empty_state_def)
  have one: "carried_count (syncActivitiesForSession Via_tools env_C ''s1'' empty_state) ''s1'' ''a1'' = 1"
    by code_simp
  have len: "length (activityLog (syncActivitiesForSession Via_tools env_C ''s1'' empty_state)) = 1"
    by code_simp
  from mirror_idempotent_plain_ids
    [of "[(env_C, Op_syncActivitiesForSession Via_tools ''s1''),
          (env_C, Op_syncActivitiesForSession Via_tools ''s1'')]"
      empty_state "''s1''" "''a1''" env_C env_C "''s1''" Via_tools empty_state]
    plain nofault start one len
  show ?thesis by simp
qed

section \<open>Active session sync\<close>

lemma closed_at_cong:
  "julesSession st' = julesSession st \<Longrightarrow> closed_at t i st' = closed_at t i st"
  by (simp add: closed_at_def)

lemma update_session_Some:
  "update_session i (Some x) c st =
     st\<lparr>julesSession :=
       map (\<lambda>r. if js_id r = i then r\<lparr>js_status := x, completedAt := c\<rparr> else r)
         (julesSession st)\<rparr>"
  by (simp add: update_session_def)

lemma update_closes:
  "closed_at t i (update_session i (Some ''COMPLETED'') (Some (Date_at t)) st)"
proof -
  have "list_all (\<lambda>r. js_id r = i \<longrightarrow> js_status r = ''COMPLETED'' \<and> completedAt r = Some (Date_at t))
          (map (\<lambda>r. if js_id r = i then r\<lparr>js_status := ''COMPLETED'', completedAt := Some (Date_at t)\<rparr> else r) xs)"
    for xs
    by (induction xs) simp_all
  then show ?thesis by (simp add: closed_at_def update_session_Some)
qed

lemma update_other:
  assumes "j \<noteq> i" and "closed_at t i st"
  shows "closed_at t i (update_session j x c st)"
proof -
  have "list_all (\<lambda>r. js_id r = i \<longrightarrow> js_status r = ''COMPLETED'' \<and> completedAt r = Some (Date_at t)) xs \<Longrightarrow>
        list_all (\<lambda>r. js_id r = i \<longrightarrow> js_status r = ''COMPLETED'' \<and> completedAt r = Some (Date_at t))
          (map (\<lambda>r. if js_id r = j
                     then r\<lparr>js_status := (case x of None \<Rightarrow> js_status r | Some y \<Rightarrow> y),
                            completedAt := c\<rparr>
                     else r) xs)"
    for xs
    using assms(1) by (induction xs) simp_all
  with assms(2) show ?thesis by (simp add: closed_at_def update_session_def)
qed

text \<open>The variant that asks for the session closes it.\<close>

lemma sync_session_closes:
  assumes "getSession e i = Inr remote" and "sess_state remote = ''COMPLETED''"
    and "db_fault e (UpdateSession i) = None"
    and "js_id d = i" and "js_status d \<noteq> ''COMPLETED''"
  shows "closed_at (now e) i (sync_session Via_client e d st)"
  using assms update_closes [of "now e" i st]
  by (simp add: sync_session_def remoteSession_state_def
      closed_at_cong [OF conjunct1 [OF syncActivitiesForSession_frame]])

lemma sync_session_keeps:
  assumes "getSession e i = Inr remote" and "sess_state remote = ''COMPLETED''"
    and "closed_at (now e) i st"
  shows "closed_at (now e) i (sync_session Via_client e d st)"
proof (cases "js_id d = i")
  case True
  with assms update_closes [of "now e" i st] show ?thesis
    by (simp add: sync_session_def remoteSession_state_def
        closed_at_cong [OF conjunct1 [OF syncActivitiesForSession_frame]]
        split: option.splits)
next
  case False
  with assms(3) update_other [of "js_id d" i "now e" st] show ?thesis
    by (simp add: sync_session_def
        closed_at_cong [OF conjunct1 [OF syncActivitiesForSession_frame]]
        split: sum.splits option.splits)
qed

lemma sync_loop_keeps:
  assumes "getSession e i = Inr remote" and "sess_state remote = ''COMPLETED''"
  shows "closed_at (now e) i st \<Longrightarrow> closed_at (now e) i (sync_loop Via_client e ds st)"
  by (induction ds arbitrary: st) (simp_all add: sync_session_keeps [OF assms])

lemma sync_loop_closes:
  assumes "getSession e i = Inr remote" and "sess_state remote = ''COMPLETED''"
    and "db_fault e (UpdateSession i) = None"
  shows "d \<in> set ds \<Longrightarrow> js_id d = i \<Longrightarrow> js_status d \<noteq> ''COMPLETED'' \<Longrightarrow>
         closed_at (now e) i (sync_loop Via_client e ds st)"
proof (induction ds arbitrary: st)
  case Nil
  then show ?case by simp
next
  case (Cons x xs)
  show ?case
  proof (cases "x = d")
    case True
    with Cons.prems have "closed_at (now e) i (sync_session Via_client e x st)"
      using sync_session_closes [OF assms] by simp
    then show ?thesis using sync_loop_keeps [OF assms(1,2)] by simp
  next
    case False
    with Cons.prems have "d \<in> set xs" by simp
    from Cons.IH [OF this Cons.prems(2,3)] show ?thesis by simp
  qed
qed

text \<open>
  The variant that asks for the activities learns no state: whatever the remote service
  answers, no stored status changes.
\<close>

lemma update_keeps_status:
  "map js_status (julesSession (update_session i None c st)) = map js_status (julesSession st)"
  by (simp add: update_session_def o_def)

lemma sync_session_tools_status:
  "map js_status (julesSession (sync_session Via_tools e d st)) = map js_status (julesSession st)"
  by (simp add: sync_session_def remoteSession_state_def update_keeps_status
      conjunct1 [OF syncActivitiesForSession_frame] split: sum.splits option.splits)

lemma sync_loop_tools_status:
  "map js_status (julesSession (sync_loop Via_tools e ds st)) = map js_status (julesSession st)"
  by (induction ds arbitrary: st) (simp_all add: sync_session_tools_status)

lemma runActiveSessionSync_tools_status:
  "map js_status (julesSession (snd (runActiveSessionSync Via_tools e st))) =
     map js_status (julesSession st)"
  by (simp add: runActiveSessionSync_def Let_def sync_loop_tools_status split: option.splits)

lemma mirror_ids: "julesSession (syncActivitiesForSession v e s st) = julesSession st"
  by (simp add: syncActivitiesForSession_frame)

lemma sync_session_ids:
  "map js_id (julesSession (sync_session v e d st)) = map js_id (julesSession st)"
  by (simp add: sync_session_def mirror_ids update_session_def o_def
      split: sum.splits option.splits)

lemma sync_loop_ids:
  "map js_id (julesSession (sync_loop v e ds st)) = map js_id (julesSession st)"
  by (induction ds arbitrary: st) (simp_all add: sync_session_ids)

lemma runActiveSessionSync_ids:
  "map js_id (julesSession (snd (runActiveSessionSync v e st))) = map js_id (julesSession st)"
  by (simp add: runActiveSessionSync_def Let_def sync_loop_ids split: option.splits)

lemma findUnique_by_ids:
  assumes "map js_id (julesSession st') = map js_id (julesSession st)"
    and "findUnique_session st i = Some d"
  shows "\<exists>d'. findUnique_session st' i = Some d' \<and> d' \<in> set (julesSession st') \<and> js_id d' = i"
proof -
  from assms(2) have "i \<in> set (map js_id (julesSession st))"
    by (auto simp: findUnique_session_def find_Some_iff)
  with assms(1) have "i \<in> set (map js_id (julesSession st'))" by simp
  then have "find (\<lambda>r. js_id r = i) (julesSession st') \<noteq> None"
    by (auto simp: find_None_iff)
  then obtain d' where "find (\<lambda>r. js_id r = i) (julesSession st') = Some d'" by auto
  then show ?thesis
    by (auto simp: findUnique_session_def find_Some_iff)
qed

text \<open>
  Scenario B in the variant that asks for the session: if the store holds s1 as
  IN_PROGRESS, the status fetch for s1 answers COMPLETED, and neither the query for the
  active sessions nor the update of s1 fails, then after the active sync the stored s1
  is COMPLETED and its \<^verbatim>\<open>completedAt\<close> is the time of the pass.
\<close>

lemma client_sync_scenario_B:
  assumes "findUnique_session st ''s1'' = Some d" and "js_status d = ''IN_PROGRESS''"
    and "getSession e ''s1'' = Inr remote" and "sess_state remote = ''COMPLETED''"
    and "db_fault e FindManyActive = None" and "db_fault e (UpdateSession ''s1'') = None"
  shows "\<exists>d'. findUnique_session (snd (runActiveSessionSync Via_client e st)) ''s1'' = Some d' \<and>
              js_status d' = ''COMPLETED'' \<and> completedAt d' = Some (Date_at (now e))"
proof -
  let ?active = "filter (\<lambda>r. js_status r \<notin> set [''COMPLETED'', ''FAILED'']) (julesSession st)"
  from assms(1) have d: "d \<in> set (julesSession st)" "js_id d = ''s1''"
    by (auto simp: findUnique_session_def find_Some_iff)
  with assms(2) have "d \<in> set ?active" by simp
  from sync_loop_closes [OF assms(3,4,6) this d(2)] assms(2)
  have "closed_at (now e) ''s1'' (sync_loop Via_client e ?active st)" by simp
  moreover have "julesSession (snd (runActiveSessionSync Via_client e st)) =
      julesSession (sync_loop Via_client e ?active st)"
    using assms(5) \<open>d \<in> set ?active\<close>
    by (auto simp: runActiveSessionSync_def Let_def split: option.splits)
  ultimately have c: "closed_at (now e) ''s1'' (snd (runActiveSessionSync Via_client e st))"
    by (simp add: closed_at_def)
  from findUnique_by_ids [OF runActiveSessionSync_ids assms(1)]
  obtain d' where "findUnique_session (snd (runActiveSessionSync Via_client e st)) ''s1'' = Some d'"
    and "d' \<in> set (julesSession (snd (runActiveSessionSync Via_client e st)))" and "js_id d' = ''s1''"
    by blast
  with c show ?thesis by (auto simp: closed_at_def list_all_iff)
qed

section \<open>The scheduler\<close>





section \<open>The poller, step by step\<close>

lemma loop_approves:
  assumes "elapsed p < o_timeoutMs (SmartPoller opts)"
    and "r_getSession r (getSession_calls p) = Inr session"
    and "sess_state session = state_value AWAITING_PLAN_APPROVAL"
    and "o_autoApprove (SmartPoller opts)"
    and "r_approvePlan r (approvePlan_calls p) = None"
  shows "monitor_loop opts r p =
           monitor_loop opts r
             (sleep 1000 (called_approvePlan r (observe session (called_getSession r p))))"
  using assms by (subst monitor_loop.simps) simp

lemma loop_waits:
  assumes "elapsed p < o_timeoutMs (SmartPoller opts)"
    and "r_getSession r (getSession_calls p) = Inr session"
    and "sess_state session = state_value IN_PROGRESS"
  shows "monitor_loop opts r p =
           monitor_loop opts r
             (sleep (o_intervalMs (SmartPoller opts)) (observe session (called_getSession r p)))"
  using assms by (subst monitor_loop.simps) simp

lemma loop_completes:
  assumes "elapsed p < o_timeoutMs (SmartPoller opts)"
    and "r_getSession r (getSession_calls p) = Inr session"
    and "sess_state session = state_value COMPLETED"
  shows "monitor_loop opts r p =
           (Inr (Poll_COMPLETED session), observe session (called_getSession r p))"
  using assms by (subst monitor_loop.simps) simp

lemma loop_feedback:
  assumes "elapsed p < o_timeoutMs (SmartPoller opts)"
    and "r_getSession r (getSession_calls p) = Inr session"
    and "sess_state session = state_value AWAITING_USER_FEEDBACK"
    and "r_listActivities r = Inr activities"
  shows "monitor_loop opts r p =
           (Inr (Poll_NEEDS_INPUT session (Some (lastMsg activities))),
            called_listActivities r (observe session (called_getSession r p)))"
  using assms by (subst monitor_loop.simps) simp

lemma loop_paused:
  assumes "elapsed p < o_timeoutMs (SmartPoller opts)"
    and "r_getSession r (getSession_calls p) = Inr session"
    and "sess_state session = state_value PAUSED"
  shows "monitor_loop opts r p =
           (Inr (Poll_NEEDS_INPUT session None), observe session (called_getSession r p))"
  using assms by (subst monitor_loop.simps) simp

lemma calls_simps:
  "approvePlan_calls (observe x p) = approvePlan_calls p"
  "getSession_calls (observe x p) = getSession_calls p"
  "listActivities_calls (observe x p) = listActivities_calls p"
  "elapsed (observe x p) = elapsed p"
  "approvePlan_calls (called_getSession r p) = approvePlan_calls p"
  "getSession_calls (called_getSession r p) = Suc (getSession_calls p)"
  "listActivities_calls (called_getSession r p) = listActivities_calls p"
  "elapsed (called_getSession r p) = elapsed p + r_call_ms r"
  "approvePlan_calls (called_approvePlan r p) = Suc (approvePlan_calls p)"
  "getSession_calls (called_approvePlan r p) = getSession_calls p"
  "listActivities_calls (called_approvePlan r p) = listActivities_calls p"
  "elapsed (called_approvePlan r p) = elapsed p + r_call_ms r"
  "approvePlan_calls (called_listActivities r p) = approvePlan_calls p"
  "getSession_calls (called_listActivities r p) = getSession_calls p"
  "listActivities_calls (called_listActivities r p) = Suc (listActivities_calls p)"
  "approvePlan_calls (sleep n p) = approvePlan_calls p"
  "getSession_calls (sleep n p) = getSession_calls p"
  "listActivities_calls (sleep n p) = listActivities_calls p"
  "elapsed (sleep n p) = elapsed p + n"
  by (simp_all add: observe_def called_getSession_def called_approvePlan_def
      called_listActivities_def sleep_def)

lemma poll_scenario_E:
  assumes auto: "o_autoApprove (SmartPoller opts)"
    and g0: "r_getSession r 0 = Inr x0" "sess_state x0 = state_value AWAITING_PLAN_APPROVAL"
    and g1: "r_getSession r 1 = Inr x1" "sess_state x1 = state_value AWAITING_PLAN_APPROVAL"
    and g2: "r_getSession r 2 = Inr x2" "sess_state x2 = state_value IN_PROGRESS"
    and g3: "r_getSession r 3 = Inr x3" "sess_state x3 = state_value COMPLETED"
    and a: "r_approvePlan r 0 = None" "r_approvePlan r 1 = None"
    and t: "2000 + o_intervalMs (SmartPoller opts) + 5 * r_call_ms r < o_timeoutMs (SmartPoller opts)"
  shows "fst (monitor opts r) = Inr (Poll_COMPLETED x3) \<and>
         approvePlan_calls (snd (monitor opts r)) = 2 \<and>
         getSession_calls (snd (monitor opts r)) = 4"
proof -
  let ?p1 = "sleep 1000 (called_approvePlan r (observe x0 (called_getSession r start)))"
  let ?p2 = "sleep 1000 (called_approvePlan r (observe x1 (called_getSession r ?p1)))"
  let ?p3 = "sleep (o_intervalMs (SmartPoller opts)) (observe x2 (called_getSession r ?p2))"
  have s0: "elapsed start = 0" "getSession_calls start = 0" "approvePlan_calls start = 0"
    by (simp_all add: start_def)
  have 1: "monitor_loop opts r start = monitor_loop opts r ?p1"
    using t by (intro loop_approves [where session = x0]) (simp_all add: s0 g0 a auto)
  have g1': "r_getSession r (Suc 0) = Inr x1" and a1': "r_approvePlan r (Suc 0) = None"
    using g1 a by simp_all
  have g2': "r_getSession r (Suc (Suc 0)) = Inr x2"
    using g2 by (simp add: numeral_2_eq_2)
  have g3': "r_getSession r (Suc (Suc (Suc 0))) = Inr x3"
    using g3 by (simp add: numeral_3_eq_3)
  have 2: "monitor_loop opts r ?p1 = monitor_loop opts r ?p2"
    using t by (intro loop_approves [where session = x1]) (simp_all add: calls_simps s0 g1 g1' a1' auto)
  have 3: "monitor_loop opts r ?p2 = monitor_loop opts r ?p3"
    using t by (intro loop_waits [where session = x2]) (simp_all add: calls_simps s0 g2 g2')
  have 4: "monitor_loop opts r ?p3 = (Inr (Poll_COMPLETED x3), observe x3 (called_getSession r ?p3))"
    using t by (intro loop_completes [where session = x3])
      (simp_all add: calls_simps s0 g3 g3')
  have "monitor opts r = (Inr (Poll_COMPLETED x3), observe x3 (called_getSession r ?p3))"
    unfolding monitor_def 1 2 3 4 ..
  then show ?thesis by (simp add: calls_simps s0)
qed

section \<open>Completion times\<close>

text \<open>
  One half of the completion invariant holds throughout: no operation of the monitor
  gives a completion time to a session that is not COMPLETED or FAILED.
\<close>

lemma completion_sound_cong:
  "julesSession st' = julesSession st \<Longrightarrow> completion_sound st' = completion_sound st"
  by (simp add: completion_sound_def)

lemma adopt_loop_completion:
  "completion_sound st \<Longrightarrow> completion_sound (snd (snd (adopt_loop e xs n st)))"
proof (induction xs arbitrary: n st)
  case Nil
  then show ?case by simp
next
  case (Cons x xs)
  have "completion_sound (st\<lparr>julesSession := julesSession st @ [adopted x]\<rparr>)"
    using Cons.prems by (simp add: completion_sound_def adopted_def)
  with Cons show ?case by (simp split: option.splits)
qed

lemma syncExternalSessions_completion:
  assumes "completion_sound st"
  shows "completion_sound (snd (syncExternalSessions e st))"
proof (cases "listSessions e 20")
  case (Inl er)
  with assms show ?thesis by (simp add: syncExternalSessions_def)
next
  case (Inr response)
  obtain c n st' where a: "adopt_loop e (or_empty response) 0 st = (c, n, st')"
    by (cases "adopt_loop e (or_empty response) 0 st")
  with adopt_loop_completion [OF assms, of e "or_empty response" 0] Inr show ?thesis
    by (simp add: syncExternalSessions_def)
qed

lemma update_completion:
  assumes "completion_sound st"
    and "c \<noteq> None \<longrightarrow> (case x of None \<Rightarrow> False | Some y \<Rightarrow> is_closed y)"
  shows "completion_sound (update_session i x c st)"
proof -
  have "list_all (\<lambda>r. completedAt r \<noteq> None \<longrightarrow> is_closed (js_status r)) xs \<Longrightarrow>
        list_all (\<lambda>r. completedAt r \<noteq> None \<longrightarrow> is_closed (js_status r))
          (map (\<lambda>r. if js_id r = i
                     then r\<lparr>js_status := (case x of None \<Rightarrow> js_status r | Some y \<Rightarrow> y),
                            completedAt := c\<rparr>
                     else r) xs)" for xs
    using assms(2) by (induction xs) (auto split: option.splits)
  with assms(1) show ?thesis by (simp add: completion_sound_def update_session_def)
qed

lemma sync_session_completion:
  assumes "completion_sound st"
  shows "completion_sound (sync_session v e d st)"
proof -
  have u: "completion_sound (update_session (js_id d) x c st)"
    if "c \<noteq> None \<longrightarrow> (case x of None \<Rightarrow> False | Some y \<Rightarrow> is_closed y)" for x c
    by (rule update_completion [OF assms that])
  show ?thesis
    using assms
    by (auto simp: sync_session_def is_closed_def
        completion_sound_cong [OF conjunct1 [OF syncActivitiesForSession_frame]]
        split: sum.splits option.splits intro!: u)
qed

lemma sync_loop_completion:
  "completion_sound st \<Longrightarrow> completion_sound (sync_loop v e ds st)"
  by (induction ds arbitrary: st) (simp_all add: sync_session_completion)

lemma runActiveSessionSync_completion:
  assumes "completion_sound st"
  shows "completion_sound (snd (runActiveSessionSync v e st))"
proof -
  have "completion_sound (x\<lparr>DASHBOARD_LAST_SYNC := w\<rparr>) = completion_sound x" for x w
    by (simp add: completion_sound_def)
  with assms sync_loop_completion [OF assms] show ?thesis
    by (simp add: runActiveSessionSync_def Let_def split: option.splits)
qed

lemma run_sessions:
  "julesSession (snd (run v e st)) =
     julesSession (snd (runActiveSessionSync v e (snd (syncExternalSessions e st))))"
proof -
  obtain n st1 where a: "syncExternalSessions e st = (n, st1)"
    by (cases "syncExternalSessions e st")
  obtain c st2 where b: "runActiveSessionSync v e st1 = (c, st2)"
    by (cases "runActiveSessionSync v e st1")
  obtain k st3 where d: "checkForStuckSessions e st2 = (k, st3)"
    by (cases "checkForStuckSessions e st2")
  have "julesSession st3 = julesSession st2"
    using checkForStuckSessions_frame [of e st2] d by simp
  with a b d show ?thesis
    by (simp add: run_def split: option.splits sum.splits variant.splits)
qed

lemma handlePlanApproval_sessions:
  "julesSession (snd (handlePlanApproval e d st)) = julesSession st"
  by (auto simp: handlePlanApproval_def Let_def logInteraction_def split: option.splits prod.splits)

lemma handleUserFeedback_sessions:
  "julesSession (snd (handleUserFeedback e d st)) = julesSession st"
  by (auto simp: handleUserFeedback_def send_intervention_def Let_def logInteraction_def
      split: option.splits prod.splits sum.splits)

lemma step_completion:
  assumes "completion_sound st"
  shows "completion_sound (step e c st)"
proof (cases c)
  case (Op_run v)
  then show ?thesis
    using runActiveSessionSync_completion [OF syncExternalSessions_completion [OF assms], of v e e]
    by (simp add: completion_sound_cong [OF run_sessions])
next
  case Op_syncExternalSessions
  then show ?thesis using syncExternalSessions_completion [OF assms] by simp
next
  case (Op_runActiveSessionSync v)
  then show ?thesis using runActiveSessionSync_completion [OF assms] by simp
next
  case (Op_syncActivitiesForSession v x)
  then show ?thesis using assms
    by (simp add: completion_sound_cong [OF conjunct1 [OF syncActivitiesForSession_frame]])
next
  case Op_checkForStuckSessions
  then show ?thesis using assms
    by (simp add: completion_sound_cong [OF conjunct1 [OF checkForStuckSessions_frame]])
next
  case (Op_checkOnJules x)
  then show ?thesis using assms
    by (simp add: completion_sound_cong [OF conjunct1 [OF checkOnJules_frame]])
next
  case (Op_handleUserFeedback d)
  then show ?thesis using assms
    by (simp add: completion_sound_cong [OF handleUserFeedback_sessions])
next
  case (Op_handlePlanApproval d)
  then show ?thesis using assms
    by (simp add: completion_sound_cong [OF handlePlanApproval_sessions])
qed

text \<open>The half that holds, over every history.\<close>

lemma completedAt_only_when_closed:
  "completion_sound st \<Longrightarrow> completion_sound (history h st)"
proof (induction h arbitrary: st)
  case Nil
  then show ?case by simp
next
  case (Cons a h)
  obtain e c where "a = (e, c)" by (cases a)
  with Cons.IH [OF step_completion [OF Cons.prems, of e c]] show ?case by simp
qed

section \<open>Discovery, run twice\<close>

text \<open>
  After a discovery that met no store failure, a second discovery against the same
  remote list adopts nothing, returns 0 and leaves the store as it is.
\<close>

lemma findUnique_session_append:
  "findUnique_session st i \<noteq> None \<Longrightarrow>
   findUnique_session (st\<lparr>julesSession := julesSession st @ ext\<rparr>) i \<noteq> None"
  by (auto simp: findUnique_session_def find_None_iff)

lemma adopt_loop_grows:
  "\<exists>ext. julesSession (snd (snd (adopt_loop e xs n st))) = julesSession st @ ext"
proof (induction xs arbitrary: n st)
  case Nil
  then show ?case by simp
next
  case (Cons x xs)
  let ?st = "st\<lparr>julesSession := julesSession st @ [adopted x]\<rparr>"
  from Cons.IH [of n st] obtain ext1
    where 1: "julesSession (snd (snd (adopt_loop e xs n st))) = julesSession st @ ext1" by blast
  from Cons.IH [of "Suc n" ?st] obtain ext2
    where 2: "julesSession (snd (snd (adopt_loop e xs (Suc n) ?st))) = julesSession st @ [adopted x] @ ext2"
    by auto
  show ?case
  proof (cases "db_fault e (FindUniqueSession (sess_id x))")
    case (Some er)
    then show ?thesis by simp
  next
    case None
    note nofault = this
    show ?thesis
    proof (cases "findUnique_session st (sess_id x)")
      case (Some existing)
      with nofault 1 show ?thesis by simp
    next
      case None
      with nofault 2 show ?thesis by (cases "db_fault e (CreateSession (sess_id x))") simp_all
    qed
  qed
qed

lemma adopt_loop_keeps:
  assumes "findUnique_session st i \<noteq> None"
  shows "findUnique_session (snd (snd (adopt_loop e xs n st))) i \<noteq> None"
proof -
  from adopt_loop_grows [of e xs n st] obtain ext
    where "julesSession (snd (snd (adopt_loop e xs n st))) = julesSession st @ ext" by blast
  with assms show ?thesis
    by (auto simp: findUnique_session_def find_None_iff)
qed

lemma adopted_found:
  "findUnique_session (st\<lparr>julesSession := julesSession st @ [adopted x]\<rparr>) (sess_id x) \<noteq> None"
proof -
  have "js_id (adopted x) = sess_id x" by (simp add: adopted_def)
  then show ?thesis
    unfolding findUnique_session_def find_None_iff by auto
qed

lemma adopt_loop_covers:
  "db_fault e = (\<lambda>c. None) \<Longrightarrow> x \<in> set xs \<Longrightarrow>
   findUnique_session (snd (snd (adopt_loop e xs n st))) (sess_id x) \<noteq> None"
proof (induction xs arbitrary: n st)
  case Nil
  then show ?case by simp
next
  case (Cons y ys)
  show ?case
  proof (cases "x = y")
    case True
    show ?thesis
    proof (cases "findUnique_session st (sess_id y)")
      case None
      with Cons.prems(1) True adopt_loop_keeps [OF adopted_found [of st y], of e ys "Suc n"]
      show ?thesis by simp
    next
      case (Some existing)
      then have "findUnique_session st (sess_id y) \<noteq> None" by simp
      from adopt_loop_keeps [OF this, of e ys n] Some Cons.prems(1) True show ?thesis by simp
    qed
  next
    case False
    with Cons.prems(2) have "x \<in> set ys" by simp
    from Cons.IH [OF Cons.prems(1) this] Cons.prems(1) show ?thesis
      by (simp split: option.splits)
  qed
qed

lemma adopt_loop_all_known:
  "\<forall>x\<in>set xs. findUnique_session st (sess_id x) \<noteq> None \<Longrightarrow>
   snd (adopt_loop e xs n st) = (n, st)"
  by (induction xs) (auto split: option.splits)

lemma discovery_idempotent:
  assumes "db_fault e = (\<lambda>c. None)" and "listSessions e' 20 = listSessions e 20"
  shows "syncExternalSessions e' (snd (syncExternalSessions e st)) =
           (0, snd (syncExternalSessions e st))"
proof (cases "listSessions e 20")
  case (Inl er)
  with assms(2) show ?thesis by (simp add: syncExternalSessions_def)
next
  case (Inr response)
  obtain c n st1 where a: "adopt_loop e (or_empty response) 0 st = (c, n, st1)"
    by (cases "adopt_loop e (or_empty response) 0 st")
  have "\<forall>x\<in>set (or_empty response). findUnique_session st1 (sess_id x) \<noteq> None"
    using adopt_loop_covers [OF assms(1), of _ "or_empty response" 0 st] a by simp
  from adopt_loop_all_known [OF this, of e' 0]
  obtain c' where "adopt_loop e' (or_empty response) 0 st1 = (c', 0, st1)"
    by (cases "adopt_loop e' (or_empty response) 0 st1") simp
  with a Inr assms(2) show ?thesis
    by (simp add: syncExternalSessions_def)
qed

section \<open>The dispatcher of the cron variant\<close>

text \<open>
  \<^verbatim>\<open>checkOnJules\<close> never looks at the interaction rows, and writes none: its answer, and
  what it sends, are the same whatever replies the store records.
\<close>

lemma checkOnJules_ignores_interactions:
  "fst (checkOnJules e sid (st\<lparr>julesInteraction := rows\<rparr>)) = fst (checkOnJules e sid st) \<and>
   outbox (snd (checkOnJules e sid (st\<lparr>julesInteraction := rows\<rparr>))) =
     outbox (snd (checkOnJules e sid st))"
  by (simp add: checkOnJules_def split: sum.splits option.splits)

text \<open>
  No entry point of either variant writes an interaction row; only the two private
  dispatchers would.
\<close>

lemma entry_points_write_no_interaction:
  "list_all (\<lambda>(e, c). case c of Op_handleUserFeedback d \<Rightarrow> False
                              | Op_handlePlanApproval d \<Rightarrow> False | _ \<Rightarrow> True) h \<Longrightarrow>
   julesInteraction (history h st) = julesInteraction st"
proof (induction h arbitrary: st)
  case Nil
  then show ?case by simp
next
  case (Cons a h)
  obtain e c where a: "a = (e, c)" by (cases a)
  have "julesInteraction (step e c st) = julesInteraction st"
  proof (cases c)
    case (Op_run v)
    then show ?thesis by (simp add: run_interactions)
  next
    case Op_syncExternalSessions
    obtain n st' where s: "syncExternalSessions e st = (n, st')"
      by (cases "syncExternalSessions e st")
    from syncExternalSessions_frame [OF s] s Op_syncExternalSessions show ?thesis by simp
  next
    case (Op_runActiveSessionSync v)
    then show ?thesis by (simp add: runActiveSessionSync_frame)
  next
    case (Op_syncActivitiesForSession v x)
    then show ?thesis by (simp add: syncActivitiesForSession_frame)
  next
    case Op_checkForStuckSessions
    then show ?thesis by (simp add: checkForStuckSessions_frame)
  next
    case (Op_checkOnJules x)
    then show ?thesis by (simp add: checkOnJules_frame)
  next
    case (Op_handleUserFeedback d)
    with Cons.prems a show ?thesis by simp
  next
    case (Op_handlePlanApproval d)
    with Cons.prems a show ?thesis by simp
  qed
  with Cons a show ?case by simp
qed

section \<open>The claims\<close>

text \<open>
  C1 fails on the code that runs. The one dispatcher a pass reaches is \<^verbatim>\<open>checkOnJules\<close>,
  which \<^verbatim>\<open>checkForStuckSessions\<close> calls for every session it selects; it asks the store
  for no earlier reply and records none. With the reply to session s4 for its latest
  message already recorded, it sends that reply again; two passes over an unchanged
  remote send it twice, and the recorded interactions stay as they were.
\<close>

theorem dispatcher_resends_despite_reply:
  "reply_count store_replied ''s4'' stuck_message = 1 \<and>
   fst (checkOnJules env_rough ''s4'' store_replied) = Inr (Some ''Pin the compatibility date.'') \<and>
   outbox (snd (checkOnJules env_rough ''s4'' store_replied)) =
     [SendMessage ''s4'' ''Pin the compatibility date.''] \<and>
   outbox (history [(env_rough, Op_run Via_tools), (env_rough, Op_run Via_tools)] store_replied) =
     [SendMessage ''s4'' ''Pin the compatibility date.'',
      SendMessage ''s4'' ''Pin the compatibility date.''] \<and>
   julesInteraction
     (history [(env_rough, Op_run Via_tools), (env_rough, Op_run Via_tools)] store_replied) =
     julesInteraction store_replied"
  by code_simp

text \<open>
  C2 fails on the code: an activity whose id holds a double quote is written to the
  metadata with the quote escaped, the check for the id in the metadata finds nothing,
  and a second mirror pass over the same list, with no store failure, inserts a second
  row carrying the id. Both variants of the mirror do so.
\<close>

theorem mirror_quoted_id_counterexample:
  "length (activityLog (syncActivitiesForSession Via_tools env_quoted ''s1'' empty_state)) = 1 \<and>
   carried_count
     (syncActivitiesForSession Via_tools env_quoted ''s1''
        (syncActivitiesForSession Via_tools env_quoted ''s1'' empty_state))
     ''s1'' (remoteId act_quoted) = 2 \<and>
   carried_count
     (syncActivitiesForSession Via_client env_quoted ''s1''
        (syncActivitiesForSession Via_client env_quoted ''s1'' empty_state))
     ''s1'' (remoteId act_quoted) = 2"
  by code_simp

text \<open>
  C3. Scenario A. With the store empty, no store failure and the remote listing the
  sessions s1 and s2, discovery inserts a record for each with origin EXTERNAL and
  returns 2; a second discovery against the same remote list returns 0 and leaves the
  store, with its two records, as it is.
\<close>

theorem discovery_scenario_A:
  assumes "db_fault e = (\<lambda>c. None)" and "db_fault e' = (\<lambda>c. None)"
    and "listSessions e 20 = Inr (Some [x1, x2])" and "listSessions e' 20 = listSessions e 20"
    and "sess_id x1 = ''s1''" and "sess_id x2 = ''s2''"
  shows "fst (syncExternalSessions e empty_state) = 2 \<and>
         julesSession (snd (syncExternalSessions e empty_state)) = [adopted x1, adopted x2] \<and>
         map js_id (julesSession (snd (syncExternalSessions e empty_state))) = [''s1'', ''s2''] \<and>
         map js_origin (julesSession (snd (syncExternalSessions e empty_state))) =
           [''EXTERNAL'', ''EXTERNAL''] \<and>
         syncExternalSessions e' (snd (syncExternalSessions e empty_state)) =
           (0, snd (syncExternalSessions e empty_state)) \<and>
         length (julesSession (snd (syncExternalSessions e' (snd (syncExternalSessions e empty_state))))) = 2"
  using assms
  by (simp add: syncExternalSessions_def or_empty_def findUnique_session_def empty_state_def
      adopted_def ORIGIN_EXTERNAL_def)

theorem discovery_scenario_A_witness:
  "fst (syncExternalSessions env_A empty_state) = 2 \<and>
   map js_id (julesSession (snd (syncExternalSessions env_A empty_state))) = [''s1'', ''s2''] \<and>
   map js_origin (julesSession (snd (syncExternalSessions env_A empty_state))) =
     [''EXTERNAL'', ''EXTERNAL''] \<and>
   fst (syncExternalSessions env_A (snd (syncExternalSessions env_A empty_state))) = 0 \<and>
   length (julesSession (snd (syncExternalSessions env_A (snd (syncExternalSessions env_A empty_state))))) = 2"
  using discovery_scenario_A [of env_A env_A "remote_session ''s1'' IN_PROGRESS"
      "remote_session ''s2'' QUEUED"]
  by (simp add: env_A_def calm_def remote_session_def adopted_def ORIGIN_EXTERNAL_def)

text \<open>
  C4 fails on the code: discovery stores the remote state of a session it adopts and
  no completion time, so a session that is already COMPLETED when it is discovered is
  stored closed with \<^verbatim>\<open>completedAt\<close> null, and the active sync, which skips closed
  sessions, never sets it, in either variant.
\<close>

theorem adopted_closed_session_has_no_completedAt:
  "map (\<lambda>r. (js_id r, js_status r, completedAt r))
     (julesSession (snd (syncExternalSessions env_done empty_state))) =
     [(''s1'', ''COMPLETED'', None)] \<and>
   map (\<lambda>r. (js_id r, js_status r, completedAt r))
     (julesSession (snd (run Via_tools env_done (snd (run Via_tools env_done empty_state))))) =
     [(''s1'', ''COMPLETED'', None)] \<and>
   map (\<lambda>r. (js_id r, js_status r, completedAt r))
     (julesSession (snd (run Via_client env_done (snd (run Via_client env_done empty_state))))) =
     [(''s1'', ''COMPLETED'', None)]"
  by code_simp

text \<open>
  C5 fails on the code that runs. In \<^verbatim>\<open>services/jules-monitor.ts\<close> the status fetch of
  the active sync is the activity tool, whose answer has no state. In scenario B, with
  the remote answering COMPLETED for s1 and no call failing, the pass leaves s1 stored
  as IN_PROGRESS with \<^verbatim>\<open>completedAt\<close> null; the same pass of the variant that asks the
  client for the session stores COMPLETED and the time of the pass. Whatever the remote
  and the store answer, the active sync of \<^verbatim>\<open>services/jules-monitor.ts\<close> changes no
  stored status.
\<close>

theorem tools_sync_never_updates_status:
  "getSession env_B ''s1'' = Inr (remote_session ''s1'' COMPLETED) \<and>
   sess_state (remote_session ''s1'' COMPLETED) = ''COMPLETED'' \<and>
   map (\<lambda>r. (js_id r, js_status r, completedAt r)) (julesSession store_B) =
     [(''s1'', ''IN_PROGRESS'', None)] \<and>
   runActiveSessionSync Via_tools env_B store_B =
     (None, store_B\<lparr>DASHBOARD_LAST_SYNC := Some 1000\<rparr>) \<and>
   map (\<lambda>r. (js_id r, js_status r, completedAt r))
     (julesSession (snd (runActiveSessionSync Via_tools env_B store_B))) =
     [(''s1'', ''IN_PROGRESS'', None)] \<and>
   map (\<lambda>r. (js_id r, js_status r, completedAt r))
     (julesSession (snd (runActiveSessionSync Via_client env_B store_B))) =
     [(''s1'', ''COMPLETED'', Some (Date_at 1000))] \<and>
   map js_status (julesSession (snd (runActiveSessionSync Via_tools e st))) =
     map js_status (julesSession st)"
proof -
  have "getSession env_B ''s1'' = Inr (remote_session ''s1'' COMPLETED)"
    by (simp add: env_B_def calm_def)
  moreover have "sess_state (remote_session ''s1'' COMPLETED) = ''COMPLETED''"
    by (simp add: remote_session_def)
  moreover have "map (\<lambda>r. (js_id r, js_status r, completedAt r)) (julesSession store_B) =
     [(''s1'', ''IN_PROGRESS'', None)]"
    by code_simp
  moreover have "runActiveSessionSync Via_tools env_B store_B =
     (None, store_B\<lparr>DASHBOARD_LAST_SYNC := Some 1000\<rparr>)"
    by code_simp
  moreover have "map (\<lambda>r. (js_id r, js_status r, completedAt r))
     (julesSession (snd (runActiveSessionSync Via_tools env_B store_B))) =
     [(''s1'', ''IN_PROGRESS'', None)]"
    by code_simp
  moreover have "map (\<lambda>r. (js_id r, js_status r, completedAt r))
     (julesSession (snd (runActiveSessionSync Via_client env_B store_B))) =
     [(''s1'', ''COMPLETED'', Some (Date_at 1000))]"
    by code_simp
  moreover have "map js_status (julesSession (snd (runActiveSessionSync Via_tools e st))) =
     map js_status (julesSession st)"
    by (rule runActiveSessionSync_tools_status)
  ultimately show ?thesis by blast
qed




text \<open>
  C7 fails on the code: the detector asks for the status \<^verbatim>\<open>WAITING_FOR_USER_FEEDBACK\<close>,
  which is no value of the session state enum, so a stored session whose status is
  \<^verbatim>\<open>AWAITING_USER_FEEDBACK\<close> is not selected, and a whole pass reports no intervention
  and sends nothing.
\<close>

theorem stuck_filter_misses_awaiting_feedback:
  "(\<forall>x. state_value x \<noteq> ''WAITING_FOR_USER_FEEDBACK'') \<and>
   js_status session_D = state_value AWAITING_USER_FEEDBACK \<and>
   stuckSessions store_D = [] \<and>
   fst (run Via_tools env_D store_D) = Inr \<lparr>synced = 0, checked = 0, interventions = 0\<rparr> \<and>
   outbox (snd (run Via_tools env_D store_D)) = []"
proof -
  have "state_value x \<noteq> ''WAITING_FOR_USER_FEEDBACK''" for x
    by (cases x) simp_all
  moreover have "js_status session_D = state_value AWAITING_USER_FEEDBACK"
    by code_simp
  moreover have "stuckSessions store_D = []"
    by code_simp
  moreover have "fst (run Via_tools env_D store_D) =
      Inr \<lparr>synced = 0, checked = 0, interventions = 0\<rparr>"
    by code_simp
  moreover have "outbox (snd (run Via_tools env_D store_D)) = []"
    by code_simp
  ultimately show ?thesis by blast
qed

text \<open>
  C8, as stated, fails: the poller approves the plan on every poll that observes
  AWAITING_PLAN_APPROVAL, so over the sequence of scenario E it calls
  \<^verbatim>\<open>approvePlan\<close> twice before it returns COMPLETED.
\<close>

theorem poller_approves_twice_counterexample:
  "fst (monitor opts_E remote_E) = Inr (Poll_COMPLETED (remote_session ''s1'' COMPLETED)) \<and>
   approvePlan_calls (snd (monitor opts_E remote_E)) = 2"
  using poll_scenario_E [of opts_E remote_E "remote_session ''s1'' AWAITING_PLAN_APPROVAL"
      "remote_session ''s1'' AWAITING_PLAN_APPROVAL" "remote_session ''s1'' IN_PROGRESS"
      "remote_session ''s1'' COMPLETED"]
  by (simp add: opts_E_def remote_E_def answers_def SmartPoller_def remote_session_def)

text \<open>
  C8, amended. With auto-approval on, \<^verbatim>\<open>approvePlan\<close> succeeding, the first four
  \<^verbatim>\<open>getSession\<close> calls answering AWAITING_PLAN_APPROVAL, AWAITING_PLAN_APPROVAL,
  IN_PROGRESS, COMPLETED, and a timeout longer than the two short delays, one poll
  interval and the five remote calls made before the fourth poll, the poller calls
  \<^verbatim>\<open>approvePlan\<close> once for each poll that observes AWAITING_PLAN_APPROVAL, twice over
  the run, makes four \<^verbatim>\<open>getSession\<close> calls and returns COMPLETED with the last snapshot.
\<close>

theorem poller_scenario_E:
  assumes "o_autoApprove (SmartPoller opts)"
    and "r_getSession r 0 = Inr x0" and "sess_state x0 = state_value AWAITING_PLAN_APPROVAL"
    and "r_getSession r 1 = Inr x1" and "sess_state x1 = state_value AWAITING_PLAN_APPROVAL"
    and "r_getSession r 2 = Inr x2" and "sess_state x2 = state_value IN_PROGRESS"
    and "r_getSession r 3 = Inr x3" and "sess_state x3 = state_value COMPLETED"
    and "r_approvePlan r 0 = None" and "r_approvePlan r 1 = None"
    and "2000 + o_intervalMs (SmartPoller opts) + 5 * r_call_ms r < o_timeoutMs (SmartPoller opts)"
  shows "fst (monitor opts r) = Inr (Poll_COMPLETED x3) \<and>
         approvePlan_calls (snd (monitor opts r)) = 2 \<and>
         getSession_calls (snd (monitor opts r)) = 4"
  using assms by (rule poll_scenario_E)

theorem poller_scenario_E_witness:
  "fst (monitor \<lparr>intervalMs = Some 2000, timeoutMs = Some 60000, autoApprove = None\<rparr> remote_E) =
     Inr (Poll_COMPLETED (remote_session ''s1'' COMPLETED)) \<and>
   approvePlan_calls
     (snd (monitor \<lparr>intervalMs = Some 2000, timeoutMs = Some 60000, autoApprove = None\<rparr> remote_E)) = 2 \<and>
   getSession_calls
     (snd (monitor \<lparr>intervalMs = Some 2000, timeoutMs = Some 60000, autoApprove = None\<rparr> remote_E)) = 4"
  using poller_scenario_E [of "\<lparr>intervalMs = Some 2000, timeoutMs = Some 60000, autoApprove = None\<rparr>"
      remote_E "remote_session ''s1'' AWAITING_PLAN_APPROVAL"
      "remote_session ''s1'' AWAITING_PLAN_APPROVAL" "remote_session ''s1'' IN_PROGRESS"
      "remote_session ''s1'' COMPLETED"]
  by (simp add: remote_E_def answers_def SmartPoller_def remote_session_def)

text \<open>
  C9, as stated, fails for PAUSED: that case returns NEEDS_INPUT at once, without
  reading any activity and without a message, even when the latest activity carries
  one.
\<close>

theorem poller_paused_counterexample:
  "monitor \<lparr>intervalMs = None, timeoutMs = None, autoApprove = None\<rparr> remote_paused =
     (Inr (Poll_NEEDS_INPUT (remote_session ''s1'' PAUSED) None),
      \<lparr>elapsed = 120, getSession_calls = 1, approvePlan_calls = 0, listActivities_calls = 0,
        lastState = Some ''PAUSED'', reported = [''PAUSED'']\<rparr>)"
  unfolding monitor_def
  by (subst monitor_loop.simps)
    (simp add: remote_paused_def answers_def SmartPoller_def remote_session_def start_def
      observe_def called_getSession_def)

text \<open>
  C9, amended. Whenever a poll made before the deadline observes
  AWAITING_USER_FEEDBACK and the activity read succeeds, the poller reads the page of
  one activity and returns NEEDS_INPUT with the agent message of its first entry, or
  with the default text when there is no entry, no agent message or an empty one.
  Whenever such a poll observes PAUSED, it returns NEEDS_INPUT with no message and
  reads no activity.
\<close>

theorem poller_needs_input:
  assumes "elapsed p < o_timeoutMs (SmartPoller opts)"
    and "r_getSession r (getSession_calls p) = Inr session"
  shows "(sess_state session = state_value AWAITING_USER_FEEDBACK \<and> r_listActivities r = Inr activities \<longrightarrow>
            fst (monitor_loop opts r p) =
              Inr (Poll_NEEDS_INPUT session
                (Some (case activities of
                         Some (a # rest) \<Rightarrow>
                           (case agentMessaged a of
                              Some m \<Rightarrow> if m = [] then ''Agent is requesting feedback.'' else m
                            | None \<Rightarrow> ''Agent is requesting feedback.'')
                       | _ \<Rightarrow> ''Agent is requesting feedback.''))) \<and>
            listActivities_calls (snd (monitor_loop opts r p)) = Suc (listActivities_calls p)) \<and>
         (sess_state session = state_value PAUSED \<longrightarrow>
            fst (monitor_loop opts r p) = Inr (Poll_NEEDS_INPUT session None) \<and>
            listActivities_calls (snd (monitor_loop opts r p)) = listActivities_calls p)"
proof -
  have "lastMsg activities = (case activities of
                         Some (a # rest) \<Rightarrow>
                           (case agentMessaged a of
                              Some m \<Rightarrow> if m = [] then ''Agent is requesting feedback.'' else m
                            | None \<Rightarrow> ''Agent is requesting feedback.'')
                       | _ \<Rightarrow> ''Agent is requesting feedback.'')"
    by (simp add: lastMsg_def split: option.splits list.splits)
  then show ?thesis
    using loop_feedback [OF assms, of activities] loop_paused [OF assms]
    by (simp add: calls_simps)
qed

theorem poller_needs_input_witness:
  "fst (monitor opts_E remote_feedback) =
     Inr (Poll_NEEDS_INPUT (remote_session ''s1'' AWAITING_USER_FEEDBACK) (Some ''Which database?'')) \<and>
   listActivities_calls (snd (monitor opts_E remote_feedback)) = 1"
  using poller_needs_input [of start opts_E remote_feedback
      "remote_session ''s1'' AWAITING_USER_FEEDBACK" "Some [question_D]"]
  by (simp add: monitor_def start_def opts_E_def SmartPoller_def remote_feedback_def answers_def
      remote_session_def question_D_def)

text \<open>
  C10. The mirror's duplicate check is containment: an activity is skipped, and no row
  is written for it, whenever its remote id occurs anywhere in the metadata of a row of
  that session. So two distinct activities exist of which the second is never mirrored:
  with the ids 10 and 1 listed in this order, the id 1 occurs in the metadata written
  for 10, and after any number of passes of either variant the store holds the row for
  10 alone.
\<close>

theorem mirror_check_is_containment:
  "((\<exists>rec \<in> set (activityLog st). al_sessionId rec = Some s \<and> metadata_contains rec (remoteId a)) \<longrightarrow>
      mirror_loop e s [a] st = st \<and>
      (db_fault e (FindFirstActivity s (remoteId a)) = None \<longrightarrow>
         mirror_loop e s (a # rest) st = mirror_loop e s rest st)) \<and>
   remoteId act_10 \<noteq> remoteId act_1 \<and>
   str_includes (mirror_metadata (remoteId act_10) act_10) (remoteId act_1) \<and>
   (\<forall>n. activityLog (((syncActivitiesForSession v env_10_1 ''s1'') ^^ Suc n) empty_state) =
          [mirrored ''s1'' (remoteId act_10) act_10]) \<and>
   (\<forall>n. carried_count (((syncActivitiesForSession v env_10_1 ''s1'') ^^ n) empty_state) ''s1''
          (remoteId act_1) = 0)"
proof -
  have skip: "mirror_loop e s [a] st = st \<and>
      (db_fault e (FindFirstActivity s (remoteId a)) = None \<longrightarrow>
         mirror_loop e s (a # rest) st = mirror_loop e s rest st)"
    if "\<exists>rec \<in> set (activityLog st). al_sessionId rec = Some s \<and> metadata_contains rec (remoteId a)"
  proof -
    from that have "findFirst_activity st s (remoteId a) \<noteq> None"
      by (auto simp: findFirst_activity_def find_None_iff)
    then show ?thesis by (auto split: option.splits)
  qed
  have r10: "remoteId act_10 = ''10''" and r1: "remoteId act_1 = ''1''"
    by code_simp+
  have differ: "remoteId act_10 \<noteq> remoteId act_1"
    by (simp add: r10 r1)
  have inc: "str_includes (mirror_metadata (remoteId act_10) act_10) (remoteId act_1)"
    unfolding r10 r1 by code_simp
  have only: "activityLog (((syncActivitiesForSession v env_10_1 ''s1'') ^^ Suc n) empty_state) =
          [mirrored ''s1'' (remoteId act_10) act_10]" for n
    unfolding r10 pass_10_1_always by simp
  have none: "carried_count (((syncActivitiesForSession v env_10_1 ''s1'') ^^ n) empty_state) ''s1''
          (remoteId act_1) = 0" for n
  proof (cases n)
    case 0
    then show ?thesis by (simp add: carried_count_def empty_state_def)
  next
    case (Suc m)
    then show ?thesis unfolding r1 using pass_10_1_always [of m] pass_10_1_no_1 by simp
  qed
  from skip differ inc only none show ?thesis by blast
qed

theorem mirror_check_is_containment_witness:
  "mirror_loop env_10_1 ''s1'' [act_1] (syncActivitiesForSession Via_tools env_10_1 ''s1'' empty_state) =
     syncActivitiesForSession Via_tools env_10_1 ''s1'' empty_state \<and>
   activityLog (syncActivitiesForSession Via_tools env_10_1 ''s1'' empty_state) =
     [mirrored ''s1'' ''10'' act_10]"
proof -
  have r1: "remoteId act_1 = ''1''"
    by code_simp
  have inc: "metadata_contains (mirrored ''s1'' ''10'' act_10) ''1''"
    by code_simp
  have sid: "al_sessionId (mirrored ''s1'' ''10'' act_10) = Some ''s1''"
    by (simp add: mirrored_def)
  from mirror_check_is_containment
    [of "syncActivitiesForSession Via_tools env_10_1 ''s1'' empty_state" "''s1''" act_1 env_10_1 "[]"]
    r1 inc sid
  show ?thesis by (simp add: pass_10_1_first)
qed

end
